theory Spec2Isabelle
  imports Complex_Main
begin

section \<open>The metronome of \<open>src/src/App.tsx\<close>\<close>

text \<open>
  The component \<open>App\<close> keeps React state (\<open>useState\<close>), mutable refs (\<open>useRef\<close>) and
  talks to the browser: the timer table behind \<open>setTimeout\<close>/\<open>setInterval\<close> and the audio
  graph of the \<open>AudioContext\<close>. All three are fields of one record, passed explicitly.

  JavaScript numbers are modelled as exact reals: \<open>60.0 / tempo\<close> and the additions on
  \<open>nextNoteTimeRef\<close> are the mathematical operations, without the rounding of IEEE doubles.
  The statements about times are phrased with the expressions of the program itself,
  \<open>now + 0.1\<close> and one addition of \<open>60 / tempo\<close> for each beat, which read the same over
  the doubles; a sum of several steps is not replaced by a product. How many beats one poll
  schedules can differ between the reals and the doubles when a beat falls on the very edge
  of the window, so no general statement fixes that number, and the runs given as examples
  keep their polls away from such an edge.
  The tempo comes from a range input with \<open>min="40"\<close> and \<open>max="240"\<close>, so the division never
  sees zero where the theorems apply (HOL's \<open>x / 0 = 0\<close> is not JavaScript's \<open>Infinity\<close>).

  \<open>AudioContext.currentTime\<close> is advanced by a task of its own, so every read inside one
  callback returns the same value: each handler takes that value as the argument \<open>now\<close>.
\<close>

subsection \<open>Data\<close>

text \<open>One oscillator started by \<open>playClick\<close>: frequency, start time, gain reached after
  the 10 ms ramp, stop time.\<close>

record click =
  ck_frequency :: real
  ck_start :: real
  ck_gain :: real
  ck_stop :: real

text \<open>The values the function \<open>scheduler\<close> closes over: it is created inside the effect, so
  it sees the \<open>tempo\<close>, \<open>clickPattern\<close> and (through \<open>playClick\<close>) the \<open>volume\<close> of the render
  that ran the effect.\<close>

record closure =
  cl_tempo :: real
  cl_clickPattern :: "bool list"
  cl_volume :: real

text \<open>What a pending timer will run.\<close>

datatype callback =
    SetIsCountingInFalse
  | SetCurrentBeat int
  | Scheduler closure

text \<open>A timer table entry: the id returned by \<open>setTimeout\<close>/\<open>setInterval\<close>, the delay in
  milliseconds, the callback. Timeouts and intervals share one table and one id pool.\<close>

type_synonym timer = "nat \<times> real \<times> callback"

record app =
  isPlaying :: bool
  isCountingIn :: bool
  tempo :: real
  volume :: real
  currentPreset :: string
  clickPattern :: "bool list"
  currentBeat :: int
  audioContextRef :: bool
  schedulerIntervalRef :: "nat option"
  nextNoteTimeRef :: real
  currentBeatRef :: int
  visualTimeoutIdsRef :: "nat list"
  isCountingInRef :: bool
  prevIsPlayingRef :: bool
  hasCleanup :: bool
  timers :: "timer list"
  nextTimerId :: nat
  audio :: "click list"
  scheduled :: "(int \<times> real) list"

text \<open>
  \<open>audioContextRef\<close> says whether the context has been created; \<open>prevIsPlayingRef\<close> is the
  ref inside \<open>usePrevious(isPlaying)\<close>; \<open>hasCleanup\<close> says whether React holds a cleanup
  function returned by the last run of the scheduler effect. \<open>visualTimeoutIdsRef\<close> is the
  \<open>Set\<close> of ids in insertion order. \<open>scheduled\<close> is a history variable, not a variable of the
  program: every iteration of the scheduler's loop appends its \<open>(beat, time)\<close>.
\<close>

definition PRESET_PATTERNS :: "string \<Rightarrow> bool list option" where
  "PRESET_PATTERNS key =
     (if key = ''standard'' then Some (replicate 16 True)
      else if key = ''backbeat'' then Some (concat (replicate 4 [False, True, False, True]))
      else if key = ''gallop'' then Some (concat (replicate 4 [True, True, False, True]))
      else if key = ''tresillo'' then
        Some (concat (replicate 2 [True, False, False, True, False, True, False, False]))
      else if key = ''sonClave'' then
        Some [True, False, False, True, False, True, False, False,
              False, True, True, False, False, True, False, False]
      else None)"

text \<open>The state after the first render and its effects: the effect runs once with
  \<open>isPlaying = false\<close>, which changes nothing. Timer ids are positive and never handed
  out twice; the table counts them from \<open>1\<close>.\<close>

definition initial :: app where
  "initial = \<lparr> isPlaying = False, isCountingIn = False, tempo = 120, volume = 0.5,
     currentPreset = ''standard'', clickPattern = replicate 16 True, currentBeat = -1,
     audioContextRef = False, schedulerIntervalRef = None, nextNoteTimeRef = 0,
     currentBeatRef = 0, visualTimeoutIdsRef = [], isCountingInRef = False,
     prevIsPlayingRef = False, hasCleanup = False, timers = [], nextTimerId = 1,
     audio = [], scheduled = [] \<rparr>"

subsection \<open>Browser primitives\<close>

text \<open>JavaScript's \<open>%\<close> takes the sign of the dividend.\<close>

definition js_rem :: "int \<Rightarrow> int \<Rightarrow> int" where
  "js_rem a b = sgn a * (\<bar>a\<bar> mod \<bar>b\<bar>)"

text \<open>\<open>setTimeout\<close>/\<open>setInterval\<close>: a fresh id, the entry appended to the table.\<close>

definition setTimer :: "real \<Rightarrow> callback \<Rightarrow> app \<Rightarrow> nat \<times> app" where
  "setTimer delay cb s =
     (nextTimerId s,
      s\<lparr> timers := timers s @ [(nextTimerId s, delay, cb)],
         nextTimerId := Suc (nextTimerId s) \<rparr>)"

text \<open>\<open>clearTimeout\<close>/\<open>clearInterval\<close>: the entry with that id, if any, is removed.\<close>

definition clearTimer :: "nat \<Rightarrow> app \<Rightarrow> app" where
  "clearTimer i s = s\<lparr> timers := filter (\<lambda>t. fst t \<noteq> i) (timers s) \<rparr>"

text \<open>\<open>clickPattern[beat]\<close> used as a condition: an index outside the array reads
  \<open>undefined\<close>, which is falsy.\<close>

definition pattern_at :: "bool list \<Rightarrow> int \<Rightarrow> bool" where
  "pattern_at p beat = (0 \<le> beat \<and> nat beat < length p \<and> p ! nat beat)"

subsection \<open>\<open>playClick\<close>\<close>

text \<open>Nothing happens without an audio context. Resuming a suspended context changes
  nothing that is modelled; the two gain ramps are kept as the gain they reach and the
  stop time.\<close>

definition playClick :: "real \<Rightarrow> int \<Rightarrow> real \<Rightarrow> app \<Rightarrow> app" where
  "playClick vol beat time s =
     (if \<not> audioContextRef s then s
      else s\<lparr> audio := audio s @
             [\<lparr> ck_frequency = (if js_rem beat 4 = 0 then 880 else 660),
                ck_start = time, ck_gain = vol, ck_stop = time + 0.08 \<rparr>] \<rparr>)"

subsection \<open>The scheduler\<close>

text \<open>\<open>delay > 0 ? delay : 0\<close>\<close>

definition clamp_delay :: "real \<Rightarrow> real" where
  "clamp_delay delay = (if delay > 0 then delay else 0)"

text \<open>One iteration of the \<open>while\<close> loop of \<open>scheduler\<close>.\<close>

definition schedule_beat :: "closure \<Rightarrow> real \<Rightarrow> app \<Rightarrow> app" where
  "schedule_beat cl now s =
     (let beat = currentBeatRef s;
          time = nextNoteTimeRef s;
          isCountInBeat = beat < 0;
          visualBeat = (if isCountInBeat then beat + 4 else beat);
          s1 = (if isCountInBeat then playClick (cl_volume cl) visualBeat time s
                else
                  (let s0 = (if beat = 0 \<and> isCountingInRef s
                             then snd (setTimer (clamp_delay ((time - now) * 1000))
                                         SetIsCountingInFalse s)
                             else s)
                   in if pattern_at (cl_clickPattern cl) beat
                      then playClick (cl_volume cl) beat time s0 else s0));
          delay = (time - now) * 1000;
          (timeoutId, s2) = setTimer (clamp_delay delay) (SetCurrentBeat visualBeat) s1;
          s3 = s2\<lparr> visualTimeoutIdsRef := visualTimeoutIdsRef s2 @ [timeoutId] \<rparr>;
          secondsPerBeat = 60 / cl_tempo cl;
          s4 = s3\<lparr> nextNoteTimeRef := nextNoteTimeRef s3 + secondsPerBeat,
                   currentBeatRef := currentBeatRef s3 + 1,
                   scheduled := scheduled s3 @ [(beat, time)] \<rparr>
      in if currentBeatRef s4 \<ge> 16 then s4\<lparr> currentBeatRef := 0 \<rparr> else s4)"

text \<open>The loop itself. With a tempo that is not positive it never ends; that is the
  value \<open>None\<close>.\<close>

partial_function (option) scheduler :: "closure \<Rightarrow> real \<Rightarrow> app \<Rightarrow> app option" where
  "scheduler cl now s =
     (if nextNoteTimeRef s < now + 0.1
      then scheduler cl now (schedule_beat cl now s)
      else Some s)"

subsection \<open>The scheduler effect\<close>

definition clearVisualTimeouts :: "app \<Rightarrow> app" where
  "clearVisualTimeouts s =
     (fold clearTimer (visualTimeoutIdsRef s) s)\<lparr> visualTimeoutIdsRef := [] \<rparr>"

text \<open>\<open>if (schedulerIntervalRef.current) clearInterval(schedulerIntervalRef.current)\<close>:
  \<open>null\<close> and \<open>0\<close> are falsy.\<close>

definition clearSchedulerInterval :: "app \<Rightarrow> app" where
  "clearSchedulerInterval s =
     (case schedulerIntervalRef s of
        None \<Rightarrow> s
      | Some i \<Rightarrow> if i \<noteq> 0 then clearTimer i s else s)"

text \<open>The function the effect returns when it ran with \<open>isPlaying\<close>.\<close>

definition scheduler_cleanup :: "app \<Rightarrow> app" where
  "scheduler_cleanup s = clearVisualTimeouts (clearSchedulerInterval s)"

text \<open>The values a scheduler created in the current render closes over.\<close>

definition current_closure :: "app \<Rightarrow> closure" where
  "current_closure s =
     \<lparr> cl_tempo = tempo s, cl_clickPattern = clickPattern s, cl_volume = volume s \<rparr>"

text \<open>The body of the effect with dependencies \<open>[isPlaying, tempo, clickPattern, playClick]\<close>.
  \<open>prevIsPlaying\<close> is the value \<open>usePrevious\<close> returned in the render that created the effect.\<close>

definition scheduler_effect :: "bool \<Rightarrow> real \<Rightarrow> app \<Rightarrow> app option" where
  "scheduler_effect prevIsPlaying now s =
     (if \<not> isPlaying s then
        Some ((clearVisualTimeouts (clearSchedulerInterval s))
                \<lparr> currentBeat := -1, isCountingIn := False, hasCleanup := False \<rparr>)
      else
        (let s1 = s\<lparr> audioContextRef := True \<rparr>;
             justStarted = (\<not> prevIsPlaying \<and> isPlaying s1);
             s2 = (if justStarted then
                     s1\<lparr> currentBeatRef := -4, nextNoteTimeRef := now + 0.1,
                         isCountingIn := True \<rparr>
                   else if isPlaying s1 then
                     s1\<lparr> currentBeatRef := 0, nextNoteTimeRef := now + 0.1,
                         isCountingIn := False \<rparr>
                   else s1);
             cl = current_closure s2;
             s3 = clearSchedulerInterval s2
         in case scheduler cl now s3 of
              None \<Rightarrow> None
            | Some s4 \<Rightarrow>
                (let (i, s5) = setTimer 25 (Scheduler cl) s4
                 in Some (s5\<lparr> schedulerIntervalRef := Some i, hasCleanup := True \<rparr>))))"

text \<open>
  What React does after a state change: a new render; when a dependency of the scheduler
  effect changed, the cleanup of its last run (if it returned one) and then its body; the
  effect of \<open>usePrevious\<close> stores the rendered \<open>isPlaying\<close>; the state changes made by the effect
  cause one more render, in which only the effect \<open>isCountingInRef.current = isCountingIn\<close> has
  work to do.
\<close>

definition rerender :: "bool \<Rightarrow> real \<Rightarrow> app \<Rightarrow> app option" where
  "rerender depsChanged now s =
     map_option (\<lambda>s'. s'\<lparr> prevIsPlayingRef := isPlaying s', isCountingInRef := isCountingIn s' \<rparr>)
       (if depsChanged
        then scheduler_effect (prevIsPlayingRef s) now
               (if hasCleanup s then scheduler_cleanup s else s)
        else Some s)"

subsection \<open>Event handlers\<close>

definition handlePlayStop :: "real \<Rightarrow> app \<Rightarrow> app option" where
  "handlePlayStop now s = rerender True now (s\<lparr> isPlaying := \<not> isPlaying s \<rparr>)"

text \<open>React compares the new state with the old one (\<open>Object.is\<close>) and does nothing when
  they are the same.\<close>

definition handleTempoChange :: "real \<Rightarrow> real \<Rightarrow> app \<Rightarrow> app option" where
  "handleTempoChange v now s = rerender (v \<noteq> tempo s) now (s\<lparr> tempo := v \<rparr>)"

text \<open>\<open>playClick\<close> is \<open>useCallback(..., [volume])\<close>: a new volume makes a new function, and
  \<open>playClick\<close> is a dependency of the scheduler effect.\<close>

definition handleVolumeChange :: "real \<Rightarrow> real \<Rightarrow> app \<Rightarrow> app option" where
  "handleVolumeChange v now s = rerender (v \<noteq> volume s) now (s\<lparr> volume := v \<rparr>)"

text \<open>\<open>newPattern[index] = !newPattern[index]\<close> on a copy: always a new array. An index
  past the end would extend the array with holes (falsy) and store \<open>true\<close>.\<close>

definition toggle_at :: "bool list \<Rightarrow> nat \<Rightarrow> bool list" where
  "toggle_at p index =
     (if index < length p then p[index := \<not> p ! index]
      else p @ replicate (index - length p) False @ [True])"

definition handlePatternToggle :: "nat \<Rightarrow> real \<Rightarrow> app \<Rightarrow> app option" where
  "handlePatternToggle index now s =
     rerender True now
       (s\<lparr> clickPattern := toggle_at (clickPattern s) index, currentPreset := ''custom'' \<rparr>)"

text \<open>The preset arrays are module constants, so the pattern is the same object only
  when the chosen preset is the current one.\<close>

definition handlePresetChange :: "string \<Rightarrow> real \<Rightarrow> app \<Rightarrow> app option" where
  "handlePresetChange presetKey now s =
     (case PRESET_PATTERNS presetKey of
        None \<Rightarrow> Some s
      | Some p \<Rightarrow>
          rerender (presetKey \<noteq> currentPreset s) now
            (s\<lparr> clickPattern := p, currentPreset := presetKey \<rparr>))"

text \<open>The browser runs the callback of a pending timer. A timeout leaves the table
  before its callback runs; an interval stays.\<close>

definition fire :: "nat \<Rightarrow> callback \<Rightarrow> real \<Rightarrow> app \<Rightarrow> app option" where
  "fire i cb now s =
     (case cb of
        Scheduler cl \<Rightarrow> scheduler cl now s
      | SetIsCountingInFalse \<Rightarrow>
          rerender False now ((clearTimer i s)\<lparr> isCountingIn := False \<rparr>)
      | SetCurrentBeat visualBeat \<Rightarrow>
          rerender False now
            ((clearTimer i s)\<lparr> currentBeat := visualBeat,
                visualTimeoutIdsRef := removeAll i (visualTimeoutIdsRef (clearTimer i s)) \<rparr>))"

definition timerFires :: "nat \<Rightarrow> real \<Rightarrow> app \<Rightarrow> app option" where
  "timerFires i now s =
     (case find (\<lambda>t. fst t = i) (timers s) of
        None \<Rightarrow> Some s
      | Some (j, d, cb) \<Rightarrow> fire i cb now s)"

subsection \<open>Runs\<close>

datatype event =
    PlayStop real
  | TempoChange real real
  | VolumeChange real real
  | PatternToggle nat real
  | PresetChange string real
  | TimerFires nat real

fun step :: "event \<Rightarrow> app \<Rightarrow> app option" where
  "step (PlayStop now) s = handlePlayStop now s"
| "step (TempoChange v now) s = handleTempoChange v now s"
| "step (VolumeChange v now) s = handleVolumeChange v now s"
| "step (PatternToggle index now) s = handlePatternToggle index now s"
| "step (PresetChange presetKey now) s = handlePresetChange presetKey now s"
| "step (TimerFires i now) s = timerFires i now s"

fun run :: "event list \<Rightarrow> app \<Rightarrow> app option" where
  "run [] s = Some s"
| "run (e # es) s = (case step e s of None \<Rightarrow> None | Some s' \<Rightarrow> run es s')"

text \<open>What the controls can send: the tempo slider stays in \<open>[40, 240]\<close>, the volume
  slider in \<open>[0, 1]\<close>, the sixteen pattern buttons have the indices \<open>0..15\<close>.\<close>

fun valid_event :: "event \<Rightarrow> bool" where
  "valid_event (TempoChange v now) = (40 \<le> v \<and> v \<le> 240)"
| "valid_event (VolumeChange v now) = (0 \<le> v \<and> v \<le> 1)"
| "valid_event (PatternToggle index now) = (index < 16)"
| "valid_event _ = True"

definition reachable :: "app \<Rightarrow> bool" where
  "reachable s = (\<exists>es. list_all valid_event es \<and> run es initial = Some s)"

subsection \<open>The scheduler of the other copy, \<open>src/App.tsx\<close>\<close>

text \<open>The repository holds a second \<open>App.tsx\<close>; its \<open>scheduler\<close> (inside the same effect)
  is translated on its own here, from that file. It calls that file's \<open>playClick\<close>, whose
  text is the one translated above.\<close>

definition schedule_beat_root :: "closure \<Rightarrow> real \<Rightarrow> app \<Rightarrow> app" where
  "schedule_beat_root cl now s =
     (let beat = currentBeatRef s;
          time = nextNoteTimeRef s;
          isCountInBeat = beat < 0;
          visualBeat = (if isCountInBeat then beat + 4 else beat);
          s1 = (if isCountInBeat then playClick (cl_volume cl) visualBeat time s
                else
                  (let s0 = (if beat = 0 \<and> isCountingInRef s
                             then snd (setTimer (clamp_delay ((time - now) * 1000))
                                         SetIsCountingInFalse s)
                             else s)
                   in if pattern_at (cl_clickPattern cl) beat
                      then playClick (cl_volume cl) beat time s0 else s0));
          delay = (time - now) * 1000;
          (timeoutId, s2) = setTimer (clamp_delay delay) (SetCurrentBeat visualBeat) s1;
          s3 = s2\<lparr> visualTimeoutIdsRef := visualTimeoutIdsRef s2 @ [timeoutId] \<rparr>;
          secondsPerBeat = 60 / cl_tempo cl;
          s4 = s3\<lparr> nextNoteTimeRef := nextNoteTimeRef s3 + secondsPerBeat,
                   currentBeatRef := currentBeatRef s3 + 1,
                   scheduled := scheduled s3 @ [(beat, time)] \<rparr>
      in if currentBeatRef s4 \<ge> 16 then s4\<lparr> currentBeatRef := 0 \<rparr> else s4)"

partial_function (option) scheduler_root :: "closure \<Rightarrow> real \<Rightarrow> app \<Rightarrow> app option" where
  "scheduler_root cl now s =
     (if nextNoteTimeRef s < now + 0.1
      then scheduler_root cl now (schedule_beat_root cl now s)
      else Some s)"

section \<open>The recorder of \<open>src/src/App.tsx\<close>\<close>

text \<open>
  The recording effect depends on \<open>isRecording\<close> only. The browser side is a heap of media
  streams (each a list of tracks) and of \<open>MediaRecorder\<close> objects; \<open>streamRef\<close> and
  \<open>mediaRecorderRef\<close> hold indices into them, so that stopping the tracks of the local
  variable \<open>stream\<close> is seen through \<open>streamRef\<close> as well. The asynchronous function
  \<open>startRecording\<close> is taken as one step. The user-visible messages are Japanese
  sentences; each is a constructor of \<open>recording_error\<close>.
\<close>

datatype track_state = Live | Ended

type_synonym media_stream = "track_state list"

datatype recorder_state = Inactive | Recording

record media_recorder =
  mr_stream :: nat
  mr_mimeType :: string
  mr_state :: recorder_state

datatype recording_error =
    UnsupportedFormat
  | MicrophoneDenied
  | RecorderFailed string
  | SaveFailed
  | PlaybackFailed

record recorder_app =
  isRecording :: bool
  analyserNode :: bool
  recordedAudio :: "(string \<times> string) option"
  recordingError :: "recording_error option"
  audioContextRef_rec :: bool
  streamRef :: "nat option"
  mediaRecorderRef :: "nat option"
  recordedChunksRef :: "nat list"
  streams :: "media_stream list"
  recorders :: "media_recorder list"



text \<open>\<open>stream.getTracks().forEach(track => track.stop())\<close>\<close>

definition stop_tracks :: "nat \<Rightarrow> recorder_app \<Rightarrow> recorder_app" where
  "stop_tracks i s =
     (if i < length (streams s)
      then s\<lparr> streams := (streams s)[i := map (\<lambda>t. Ended) (streams s ! i)] \<rparr>
      else s)"


text \<open>The \<open>type\<close> of a \<open>Blob\<close> constructed with the option \<open>type\<close>: the empty string when the
  given string has a character outside the range U+0020 to U+007E, else the given string
  with the letters \<open>A\<close> to \<open>Z\<close> in lower case. A character of a string is a byte here, a
  character past U+007F being bytes above 127.\<close>

definition ascii_lower :: "char \<Rightarrow> char" where
  "ascii_lower c =
     (case map_of (zip ''ABCDEFGHIJKLMNOPQRSTUVWXYZ'' ''abcdefghijklmnopqrstuvwxyz'') c of
        None \<Rightarrow> c
      | Some l \<Rightarrow> l)"

definition blob_type :: "string \<Rightarrow> string" where
  "blob_type t =
     (if list_all (\<lambda>c. 32 \<le> (of_char c :: nat) \<and> (of_char c :: nat) \<le> 126) t
      then map ascii_lower t else [])"

text \<open>The handlers installed on the recorder. \<open>onstop\<close> runs when the recorder has stopped
  and its data has been delivered; \<open>url\<close> is what \<open>URL.createObjectURL\<close> returns. What is
  stored is \<open>audioBlob.type\<close>, the type of the blob, not the string the blob was given.\<close>

definition ondataavailable :: "nat \<Rightarrow> recorder_app \<Rightarrow> recorder_app" where
  "ondataavailable data_size s =
     (if data_size > 0 then s\<lparr> recordedChunksRef := recordedChunksRef s @ [data_size] \<rparr>
      else s)"

definition onstop :: "string \<Rightarrow> string \<Rightarrow> recorder_app \<Rightarrow> recorder_app" where
  "onstop supportedType url s =
     (if recordedChunksRef s = [] then s
      else
        (let current = (case mediaRecorderRef s of
                          None \<Rightarrow> []
                        | Some r \<Rightarrow> if r < length (recorders s)
                                    then mr_mimeType (recorders s ! r) else []);
             mimeType = (if current \<noteq> [] then current else supportedType);
             audioBlob_type = blob_type mimeType
         in s\<lparr> recordedAudio := Some (url, audioBlob_type), recordingError := None,
               recordedChunksRef := [] \<rparr>))"

definition onerror :: "string \<Rightarrow> recorder_app \<Rightarrow> recorder_app" where
  "onerror errorMessage s =
     s\<lparr> recordingError := Some (RecorderFailed errorMessage), isRecording := False \<rparr>"





subsection \<open>The name of a saved recording\<close>

text \<open>\<open>String.prototype.includes\<close>, \<open>replace\<close> with a string pattern (the first occurrence
  only) and \<open>replace\<close> with the regular expression \<open>/:/g\<close> (every occurrence).\<close>

fun includes_str :: "string \<Rightarrow> string \<Rightarrow> bool" where
  "includes_str [] p = (p = [])"
| "includes_str (c # cs) p = (take (length p) (c # cs) = p \<or> includes_str cs p)"

fun replace_first :: "char \<Rightarrow> char \<Rightarrow> string \<Rightarrow> string" where
  "replace_first a b [] = []"
| "replace_first a b (c # cs) = (if c = a then b # cs else c # replace_first a b cs)"

definition replace_all :: "char \<Rightarrow> char \<Rightarrow> string \<Rightarrow> string" where
  "replace_all a b str = map (\<lambda>c. if c = a then b else c) str"

text \<open>The instant \<open>new Date()\<close> by its UTC fields, and \<open>Date.prototype.toISOString\<close>:
  \<open>YYYY-MM-DDTHH:mm:ss.sssZ\<close>, with six digits and a sign for years past 9999.\<close>

record js_date =
  utcFullYear :: nat
  utcMonth :: nat
  utcDate :: nat
  utcHours :: nat
  utcMinutes :: nat
  utcSeconds :: nat
  utcMilliseconds :: nat

definition digit :: "nat \<Rightarrow> char" where
  "digit n = ''0123456789'' ! (n mod 10)"

definition pad2 :: "nat \<Rightarrow> string" where
  "pad2 n = [digit (n div 10), digit n]"

definition pad3 :: "nat \<Rightarrow> string" where
  "pad3 n = [digit (n div 100), digit (n div 10), digit n]"

definition pad4 :: "nat \<Rightarrow> string" where
  "pad4 n = [digit (n div 1000), digit (n div 100), digit (n div 10), digit n]"

definition toISOString :: "js_date \<Rightarrow> string" where
  "toISOString d =
     (if utcFullYear d \<le> 9999 then pad4 (utcFullYear d)
      else ''+'' @ pad2 (utcFullYear d div 10000) @ pad4 (utcFullYear d)) @
     ''-'' @ pad2 (utcMonth d) @ ''-'' @ pad2 (utcDate d) @ ''T'' @
     pad2 (utcHours d) @ '':'' @ pad2 (utcMinutes d) @ '':'' @ pad2 (utcSeconds d) @
     ''.'' @ pad3 (utcMilliseconds d) @ ''Z''"

text \<open>\<open>handleSaveRecording\<close> up to the file it builds: nothing without a recording, else
  the \<open>File\<close>'s name and type. Sharing or downloading that file is the browser's part.\<close>

definition handleSaveRecording :: "js_date \<Rightarrow> recorder_app \<Rightarrow> (string \<times> string) option" where
  "handleSaveRecording date s =
     (case recordedAudio s of
        None \<Rightarrow> None
      | Some (url, type) \<Rightarrow>
          (let extension = (if includes_str type ''mp4'' then ''mp4'' else ''webm'');
               mimeType = (if includes_str type ''mp4'' then ''audio/mp4'' else ''audio/webm'');
               timestamp = replace_all CHR '':'' CHR ''-''
                             (replace_first CHR ''T'' CHR ''_'' (take 19 (toISOString date)));
               filename = ''metronome-recording_'' @ timestamp @ ''.'' @ extension
           in Some (filename, mimeType)))"

text \<open>The format as the specification words it: an ISO 8601 timestamp in which every
  \<open>:\<close> is replaced by \<open>-\<close>, between the fixed prefix and the extension.\<close>

definition iso_name_with_dashes :: "string \<Rightarrow> string \<Rightarrow> string" where
  "iso_name_with_dashes timestamp ext =
     ''metronome-recording_'' @ replace_all CHR '':'' CHR ''-'' timestamp @ ''.'' @ ext"

section \<open>The recorder of the other copy, \<open>src/App.tsx\<close>\<close>

text \<open>
  The older copy keeps the URL of the recording only (\<open>recordedAudioUrl\<close>) and has no error
  state. Its \<open>startRecording\<close> has no list of types and never calls
  \<open>MediaRecorder.isTypeSupported\<close>: it constructs \<open>new MediaRecorder(stream)\<close> with no
  options, so that no type is requested, and starts it. Whatever is thrown is caught, logged
  and answered by \<open>setIsRecording(false)\<close>. The blob of \<open>onstop\<close> always has the type
  \<open>audio/webm\<close>, and the saved file always ends in \<open>.webm\<close>.
\<close>

record recorder_root =
  isRecording_root :: bool
  analyserNode_root :: bool
  recordedAudioUrl :: "string option"
  audioContextRef_root :: bool
  streamRef_root :: "nat option"
  mediaRecorderRef_root :: "nat option"
  recordedChunksRef_root :: "nat list"
  streams_root :: "media_stream list"
  recorders_root :: "media_recorder list"


definition onstop_root :: "string \<Rightarrow> recorder_root \<Rightarrow> recorder_root" where
  "onstop_root url s = s\<lparr> recordedAudioUrl := Some url, recordedChunksRef_root := [] \<rparr>"

text \<open>\<open>handleSaveRecording\<close> of the older copy, up to the \<open>download\<close> name of the link.
  \<open>if (!recordedAudioUrl) return\<close>: \<open>null\<close> and the empty string are falsy.\<close>

definition handleSaveRecording_root :: "js_date \<Rightarrow> recorder_root \<Rightarrow> string option" where
  "handleSaveRecording_root date s =
     (case recordedAudioUrl s of
        None \<Rightarrow> None
      | Some url \<Rightarrow>
          if url = [] then None
          else
            (let timestamp = replace_all CHR '':'' CHR ''-''
                               (replace_first CHR ''T'' CHR ''_'' (take 19 (toISOString date)))
             in Some (''metronome-recording_'' @ timestamp @ ''.webm'')))"

section \<open>Notions used in the statements\<close>

text \<open>The cursor after one more beat: \<open>currentBeatRef.current++\<close>, then back to \<open>0\<close> at \<open>16\<close>.\<close>

definition next_beat :: "int \<Rightarrow> int" where
  "next_beat beat = (if beat + 1 \<ge> 16 then 0 else beat + 1)"

text \<open>The closure of a scheduler running the preset \<open>tresillo\<close> at 90 beats per minute.\<close>

definition tresillo_closure :: closure where
  "tresillo_closure = \<lparr> cl_tempo = 90,
     cl_clickPattern = concat (replicate 2 [True, False, False, True, False, True, False, False]),
     cl_volume = 0.5 \<rparr>"

text \<open>
  An invariant of the reachable states. Every pending highlight update has its id in
  \<open>visualTimeoutIdsRef\<close>; a pending scheduler interval is the one in
  \<open>schedulerIntervalRef\<close>, exists only while playing and closes over the current settings.
\<close>

fun timer_tracked :: "app \<Rightarrow> timer \<Rightarrow> bool" where
  "timer_tracked s (i, d, SetIsCountingInFalse) = True"
| "timer_tracked s (i, d, SetCurrentBeat v) = (i \<in> set (visualTimeoutIdsRef s))"
| "timer_tracked s (i, d, Scheduler cl) = (schedulerIntervalRef s = Some i \<and> i \<noteq> 0)"

fun timer_ok :: "app \<Rightarrow> timer \<Rightarrow> bool" where
  "timer_ok s (i, d, Scheduler cl) =
     (schedulerIntervalRef s = Some i \<and> i \<noteq> 0 \<and> isPlaying s \<and> cl = current_closure s)"
| "timer_ok s t = timer_tracked s t"

fun is_poll :: "timer \<Rightarrow> bool" where
  "is_poll (i, d, Scheduler cl) = True"
| "is_poll t = False"

fun is_visual :: "timer \<Rightarrow> bool" where
  "is_visual (i, d, SetCurrentBeat v) = True"
| "is_visual t = False"

definition invariant :: "app \<Rightarrow> bool" where
  "invariant s =
     (list_all (timer_ok s) (timers s) \<and> nextTimerId s \<noteq> 0 \<and>
      40 \<le> tempo s \<and> tempo s \<le> 240 \<and>
      - 4 \<le> currentBeatRef s \<and> currentBeatRef s \<le> 15 \<and>
      prevIsPlayingRef s = isPlaying s \<and> hasCleanup s = isPlaying s \<and>
      isCountingInRef s = isCountingIn s \<and>
      (isPlaying s \<longrightarrow> audioContextRef s) \<and>
      (\<not> isPlaying s \<longrightarrow> currentBeat s = - 1 \<and> visualTimeoutIdsRef s = []) \<and>
      (case PRESET_PATTERNS (currentPreset s) of
         None \<Rightarrow> True
       | Some p \<Rightarrow> clickPattern s = p) \<and>
      length (clickPattern s) = 16)"

text \<open>The beats that \<open>n\<close> iterations of the loop schedule, starting with the cursor at
  \<open>beat\<close> and the next event at \<open>time\<close>, when a beat lasts \<open>d\<close> seconds.\<close>

fun beats_from :: "real \<Rightarrow> nat \<Rightarrow> int \<Rightarrow> real \<Rightarrow> (int \<times> real) list" where
  "beats_from d 0 beat time = []"
| "beats_from d (Suc n) beat time = (beat, time) # beats_from d n (next_beat beat) (time + d)"

text \<open>The clicks one iteration starts for the beat \<open>bt = (beat, time)\<close> once the audio
  context exists: always one for a count-in beat, one for a pattern beat when the
  pattern says so.\<close>

definition clicks_of :: "closure \<Rightarrow> int \<times> real \<Rightarrow> click list" where
  "clicks_of cl bt =
     (if fst bt < 0 then
        [\<lparr> ck_frequency = (if js_rem (fst bt + 4) 4 = 0 then 880 else 660),
           ck_start = snd bt, ck_gain = cl_volume cl, ck_stop = snd bt + 0.08 \<rparr>]
      else if pattern_at (cl_clickPattern cl) (fst bt) then
        [\<lparr> ck_frequency = (if js_rem (fst bt) 4 = 0 then 880 else 660),
           ck_start = snd bt, ck_gain = cl_volume cl, ck_stop = snd bt + 0.08 \<rparr>]
      else [])"

text \<open>Events that are the browser's doing, and events that keep the transport as it is.\<close>

fun is_timer_event :: "event \<Rightarrow> bool" where
  "is_timer_event (TimerFires i now) = True"
| "is_timer_event e = False"

fun keeps_transport :: "event \<Rightarrow> bool" where
  "keeps_transport (PlayStop now) = False"
| "keeps_transport e = True"

text \<open>\<open>advanced n s s'\<close>: from \<open>s\<close> to \<open>s'\<close> the settings and the transport stayed as they
  were and exactly \<open>n\<close> more beats were scheduled, one beat duration apart.\<close>

definition advanced :: "nat \<Rightarrow> app \<Rightarrow> app \<Rightarrow> bool" where
  "advanced n s s' =
     (isPlaying s' = isPlaying s \<and> tempo s' = tempo s \<and> volume s' = volume s \<and>
      clickPattern s' = clickPattern s \<and> currentPreset s' = currentPreset s \<and>
      currentBeatRef s' = (next_beat ^^ n) (currentBeatRef s) \<and>
      nextNoteTimeRef s' = nextNoteTimeRef s + real n * (60 / tempo s) \<and>
      scheduled s' =
        scheduled s @ beats_from (60 / tempo s) n (currentBeatRef s) (nextNoteTimeRef s) \<and>
      audio s' =
        audio s @ concat (map (clicks_of (current_closure s))
          (beats_from (60 / tempo s) n (currentBeatRef s) (nextNoteTimeRef s))) \<and>
      (\<not> isPlaying s \<longrightarrow> n = 0))"

text \<open>\<open>resynced now s s'\<close>: what a re-run of the scheduler effect at clock time \<open>now\<close> does
  when the transport stays as it is. No beat is scheduled by the effect itself.\<close>

definition resynced :: "real \<Rightarrow> app \<Rightarrow> app \<Rightarrow> bool" where
  "resynced now s s' =
     (isPlaying s' = isPlaying s \<and> scheduled s' = scheduled s \<and> audio s' = audio s \<and>
      (if isPlaying s
       then currentBeatRef s' = 0 \<and> nextNoteTimeRef s' = now + 0.1 \<and>
            \<not> isCountingIn s' \<and> \<not> isCountingInRef s' \<and> visualTimeoutIdsRef s' = []
       else currentBeatRef s' = currentBeatRef s \<and>
            nextNoteTimeRef s' = nextNoteTimeRef s))"

text \<open>The time of the \<open>k\<close>-th beat after one due at \<open>t\<close>, as the loop arrives at it: \<open>k\<close>
  times \<open>nextNoteTimeRef.current += secondsPerBeat\<close>.\<close>

fun beat_time :: "real \<Rightarrow> real \<Rightarrow> nat \<Rightarrow> real" where
  "beat_time t d 0 = t"
| "beat_time t d (Suc k) = beat_time t d k + d"





definition recorder_initial :: recorder_app where
  "recorder_initial = \<lparr> isRecording = False, analyserNode = False, recordedAudio = None,
     recordingError = None, audioContextRef_rec = False, streamRef = None,
     mediaRecorderRef = None, recordedChunksRef = [], streams = [], recorders = [] \<rparr>"

text \<open>The recorder part of the older copy when the record button has just been pressed
  for the first time, and when it holds a finished recording.\<close>

definition recorder_root_requested :: recorder_root where
  "recorder_root_requested = \<lparr> isRecording_root = True, analyserNode_root = False,
     recordedAudioUrl = None, audioContextRef_root = False, streamRef_root = None,
     mediaRecorderRef_root = None, recordedChunksRef_root = [], streams_root = [],
     recorders_root = [] \<rparr>"

definition recorded_root :: recorder_root where
  "recorded_root = recorder_root_requested
     \<lparr> isRecording_root := False, recordedAudioUrl := Some ''blob:1'' \<rparr>"

text \<open>An instant, a state holding a finished recording of type \<open>audio/mp4\<close>, and a state in
  which a recorder that reports the type \<open>audio/MP4\<close> has delivered its data.\<close>

definition jan2 :: js_date where
  "jan2 = \<lparr> utcFullYear = 2024, utcMonth = 1, utcDate = 2, utcHours = 3, utcMinutes = 4,
            utcSeconds = 5, utcMilliseconds = 678 \<rparr>"

definition recorded_mp4 :: recorder_app where
  "recorded_mp4 = recorder_initial\<lparr> recordedAudio := Some (''blob:1'', ''audio/mp4'') \<rparr>"

definition recording_done :: recorder_app where
  "recording_done = recorder_initial
     \<lparr> recordedChunksRef := [1024], mediaRecorderRef := Some 0,
        recorders := [\<lparr> mr_stream = 0, mr_mimeType = ''audio/MP4'', mr_state = Inactive \<rparr>] \<rparr>"

section \<open>Properties of the scheduler\<close>

subsection \<open>One iteration\<close>

lemmas sb_defs = schedule_beat_def Let_def setTimer_def playClick_def

lemma sb_nextNoteTimeRef [simp]:
  "nextNoteTimeRef (schedule_beat cl now s) = nextNoteTimeRef s + 60 / cl_tempo cl"
  by (simp add: sb_defs)

lemma sb_currentBeatRef [simp]:
  "currentBeatRef (schedule_beat cl now s) = next_beat (currentBeatRef s)"
  by (simp add: sb_defs next_beat_def)

lemma sb_scheduled [simp]:
  "scheduled (schedule_beat cl now s) = scheduled s @ [(currentBeatRef s, nextNoteTimeRef s)]"
  by (simp add: sb_defs)

lemma sb_frame [simp]:
  "isPlaying (schedule_beat cl now s) = isPlaying s"
  "isCountingIn (schedule_beat cl now s) = isCountingIn s"
  "tempo (schedule_beat cl now s) = tempo s"
  "volume (schedule_beat cl now s) = volume s"
  "currentPreset (schedule_beat cl now s) = currentPreset s"
  "clickPattern (schedule_beat cl now s) = clickPattern s"
  "currentBeat (schedule_beat cl now s) = currentBeat s"
  "audioContextRef (schedule_beat cl now s) = audioContextRef s"
  "schedulerIntervalRef (schedule_beat cl now s) = schedulerIntervalRef s"
  "isCountingInRef (schedule_beat cl now s) = isCountingInRef s"
  "prevIsPlayingRef (schedule_beat cl now s) = prevIsPlayingRef s"
  "hasCleanup (schedule_beat cl now s) = hasCleanup s"
  by (simp_all add: sb_defs)

lemma pattern_at_nth:
  "0 \<le> beat \<Longrightarrow> beat < int (length p) \<Longrightarrow> pattern_at p beat = p ! nat beat"
  by (auto simp: pattern_at_def)

text \<open>
  C3. A pattern beat (cursor at least \<open>0\<close>) starts a click exactly when the pattern has
  \<open>true\<close> at the cursor, which for a cursor inside the array is the entry
  \<open>clickPattern[cursor]\<close>. Audible or silent, the iteration moves the cursor on, and its last
  act on the timer table is the highlight update \<open>setCurrentBeat(cursor)\<close>, whose id joins
  \<open>visualTimeoutIdsRef\<close>. Every beat that is due goes through this iteration.
\<close>

theorem pattern_beat_sounds_iff_pattern:
  assumes "0 \<le> currentBeatRef s" and "audioContextRef s"
  shows "audio (schedule_beat cl now s) =
           audio s @
           (if pattern_at (cl_clickPattern cl) (currentBeatRef s)
            then [\<lparr> ck_frequency = (if js_rem (currentBeatRef s) 4 = 0 then 880 else 660),
                    ck_start = nextNoteTimeRef s, ck_gain = cl_volume cl,
                    ck_stop = nextNoteTimeRef s + 0.08 \<rparr>]
            else []) \<and>
         (currentBeatRef s < int (length (cl_clickPattern cl)) \<longrightarrow>
           pattern_at (cl_clickPattern cl) (currentBeatRef s) =
           cl_clickPattern cl ! nat (currentBeatRef s)) \<and>
         currentBeatRef (schedule_beat cl now s) = next_beat (currentBeatRef s) \<and>
         (\<exists>timeoutId.
           last (timers (schedule_beat cl now s)) =
             (timeoutId, clamp_delay ((nextNoteTimeRef s - now) * 1000),
              SetCurrentBeat (currentBeatRef s)) \<and>
           visualTimeoutIdsRef (schedule_beat cl now s) = visualTimeoutIdsRef s @ [timeoutId]) \<and>
         (nextNoteTimeRef s < now + 0.1 \<longrightarrow>
           scheduler cl now s = scheduler cl now (schedule_beat cl now s))"
proof (intro conjI impI)
  show "audio (schedule_beat cl now s) =
           audio s @
           (if pattern_at (cl_clickPattern cl) (currentBeatRef s)
            then [\<lparr> ck_frequency = (if js_rem (currentBeatRef s) 4 = 0 then 880 else 660),
                    ck_start = nextNoteTimeRef s, ck_gain = cl_volume cl,
                    ck_stop = nextNoteTimeRef s + 0.08 \<rparr>]
            else [])"
    using assms by (simp add: sb_defs)
  show "pattern_at (cl_clickPattern cl) (currentBeatRef s) =
           cl_clickPattern cl ! nat (currentBeatRef s)"
    if "currentBeatRef s < int (length (cl_clickPattern cl))"
    using assms that by (simp add: pattern_at_nth)
  show "currentBeatRef (schedule_beat cl now s) = next_beat (currentBeatRef s)"
    by simp
  show "\<exists>timeoutId.
           last (timers (schedule_beat cl now s)) =
             (timeoutId, clamp_delay ((nextNoteTimeRef s - now) * 1000),
              SetCurrentBeat (currentBeatRef s)) \<and>
           visualTimeoutIdsRef (schedule_beat cl now s) = visualTimeoutIdsRef s @ [timeoutId]"
    using assms by (simp add: sb_defs)
  show "scheduler cl now s = scheduler cl now (schedule_beat cl now s)"
    if "nextNoteTimeRef s < now + 0.1"
    using that by (subst scheduler.simps) simp
qed

theorem pattern_beat_sounds_iff_pattern_witness:
  "0 \<le> currentBeatRef
          (initial\<lparr> isPlaying := True, audioContextRef := True, currentBeatRef := 3,
            nextNoteTimeRef := 2 \<rparr>) \<and>
   audioContextRef
          (initial\<lparr> isPlaying := True, audioContextRef := True, currentBeatRef := 3,
            nextNoteTimeRef := 2 \<rparr>) \<and>
   audio (schedule_beat tresillo_closure 1.95
          (initial\<lparr> isPlaying := True, audioContextRef := True, currentBeatRef := 3,
            nextNoteTimeRef := 2 \<rparr>)) =
     [\<lparr> ck_frequency = 660, ck_start = 2, ck_gain = 0.5, ck_stop = 2.08 \<rparr>] \<and>
   currentBeatRef (schedule_beat tresillo_closure 1.95
          (initial\<lparr> isPlaying := True, audioContextRef := True, currentBeatRef := 3,
            nextNoteTimeRef := 2 \<rparr>)) = 4"
  using pattern_beat_sounds_iff_pattern
    [of "initial\<lparr> isPlaying := True, audioContextRef := True, currentBeatRef := 3,
            nextNoteTimeRef := 2 \<rparr>" tresillo_closure "1.95"]
  by (simp add: initial_def tresillo_closure_def pattern_at_def js_rem_def next_beat_def
      numeral_2_eq_2)

subsection \<open>The loop\<close>

text \<open>If the loop returns, it has run its body some number of times.\<close>

lemma scheduler_Some_funpow:
  assumes "scheduler cl now s = Some s'"
  shows "\<exists>n. s' = (schedule_beat cl now ^^ n) s"
proof (rule scheduler.raw_induct
    [where P = "\<lambda>cl now s s'. \<exists>n. s' = (schedule_beat cl now ^^ n) s", OF _ assms])
  fix sch :: "closure \<Rightarrow> real \<Rightarrow> app \<Rightarrow> app option" and cl now s s'
  assume IH: "\<And>cl now s s'. sch cl now s = Some s' \<Longrightarrow> \<exists>n. s' = (schedule_beat cl now ^^ n) s"
    and eq: "(if nextNoteTimeRef s < now + 1 / 10
              then sch cl now (schedule_beat cl now s) else Some s) = Some s'"
  show "\<exists>n. s' = (schedule_beat cl now ^^ n) s"
  proof (cases "nextNoteTimeRef s < now + 1 / 10")
    case True
    with eq have "sch cl now (schedule_beat cl now s) = Some s'" by simp
    from IH [OF this] obtain n where "s' = (schedule_beat cl now ^^ n) (schedule_beat cl now s)"
      by blast
    then have "s' = (schedule_beat cl now ^^ Suc n) s"
      by (simp add: funpow_swap1)
    then show ?thesis by blast
  next
    case False
    with eq have "s' = (schedule_beat cl now ^^ 0) s" by simp
    then show ?thesis by blast
  qed
qed

lemma scheduler_not_due:
  "\<not> nextNoteTimeRef s < now + 1 / 10 \<Longrightarrow> scheduler cl now s = Some s"
  by (subst scheduler.simps) simp

text \<open>With a positive tempo the loop returns: the next event moves on by a fixed positive
  amount, so it leaves the window after finitely many beats.\<close>

lemma scheduler_returns_aux:
  assumes "0 < cl_tempo cl"
  shows "now + 1 / 10 - nextNoteTimeRef s \<le> real n * (60 / cl_tempo cl)
           \<Longrightarrow> \<exists>s'. scheduler cl now s = Some s'"
proof (induction n arbitrary: s)
  case 0
  then have "\<not> nextNoteTimeRef s < now + 1 / 10" by simp
  then show ?case by (simp add: scheduler_not_due)
next
  case (Suc n)
  show ?case
  proof (cases "nextNoteTimeRef s < now + 1 / 10")
    case True
    define d where "d = 60 / cl_tempo cl"
    from Suc.prems have "now + 1 / 10 - nextNoteTimeRef s \<le> d + real n * d"
      by (simp add: d_def [symmetric] distrib_right)
    then have "now + 1 / 10 - nextNoteTimeRef (schedule_beat cl now s)
                 \<le> real n * (60 / cl_tempo cl)"
      by (simp add: d_def [symmetric])
    from Suc.IH [OF this] True show ?thesis
      by (subst scheduler.simps) simp
  next
    case False
    then show ?thesis by (simp add: scheduler_not_due)
  qed
qed

lemma scheduler_returns:
  assumes "0 < cl_tempo cl"
  shows "\<exists>s'. scheduler cl now s = Some s'"
proof -
  from assms have "0 < 60 / cl_tempo cl" by simp
  then obtain n where "now + 1 / 10 - nextNoteTimeRef s < real n * (60 / cl_tempo cl)"
    using ex_less_of_nat_mult by blast
  then show ?thesis
    using scheduler_returns_aux [OF assms, of now s n] by simp
qed

subsection \<open>Clearing timers, and the effect in closed form\<close>

lemma fold_clearTimer:
  "fold clearTimer ids s = s\<lparr> timers := filter (\<lambda>t. fst t \<notin> set ids) (timers s) \<rparr>"
proof (induction ids arbitrary: s)
  case Nil
  then show ?case by simp
next
  case (Cons i ids)
  have flt: "filter (\<lambda>t. fst t \<notin> set ids) (filter (\<lambda>t. fst t \<noteq> i) ts) =
        filter (\<lambda>t. fst t \<notin> set (i # ids)) ts" for ts :: "timer list"
    by (induction ts) auto
  have "fold clearTimer (i # ids) s = fold clearTimer ids (clearTimer i s)"
    by simp
  also have "\<dots> = (clearTimer i s)
      \<lparr> timers := filter (\<lambda>t. fst t \<notin> set ids) (timers (clearTimer i s)) \<rparr>"
    by (rule Cons.IH)
  also have "\<dots> = s\<lparr> timers := filter (\<lambda>t. fst t \<notin> set (i # ids)) (timers s) \<rparr>"
    unfolding clearTimer_def using flt [of "timers s"] by simp
  finally show ?case .
qed

lemma clearVisualTimeouts_eq:
  "clearVisualTimeouts s =
     s\<lparr> timers := filter (\<lambda>t. fst t \<notin> set (visualTimeoutIdsRef s)) (timers s),
        visualTimeoutIdsRef := [] \<rparr>"
  by (simp add: clearVisualTimeouts_def fold_clearTimer)

lemma clearSchedulerInterval_eq:
  "clearSchedulerInterval s =
     s\<lparr> timers := filter (\<lambda>t. schedulerIntervalRef s = Some (fst t) \<longrightarrow> fst t = 0) (timers s) \<rparr>"
proof (cases "schedulerIntervalRef s")
  case None
  then show ?thesis by (simp add: clearSchedulerInterval_def)
next
  case (Some i)
  have "filter (\<lambda>t. i = fst t \<longrightarrow> fst t = 0) ts =
        (if i \<noteq> 0 then filter (\<lambda>t. fst t \<noteq> i) ts else ts)" for ts :: "timer list"
    by (induction ts) auto
  with Some show ?thesis by (simp add: clearSchedulerInterval_def clearTimer_def)
qed

lemma effect_stopped:
  "\<not> isPlaying s \<Longrightarrow> scheduler_effect p now s =
     Some ((clearVisualTimeouts (clearSchedulerInterval s))
             \<lparr> currentBeat := -1, isCountingIn := False, hasCleanup := False \<rparr>)"
  by (simp add: scheduler_effect_def)

text \<open>While playing, the call \<open>scheduler()\<close> inside the effect schedules nothing: the next
  event has just been put at the end of the window.\<close>

lemma effect_playing:
  "isPlaying s \<Longrightarrow> scheduler_effect p now s =
     Some ((clearSchedulerInterval s)
       \<lparr> audioContextRef := True,
          currentBeatRef := (if p then 0 else - 4),
          nextNoteTimeRef := now + 0.1,
          isCountingIn := \<not> p,
          timers := timers (clearSchedulerInterval s) @
                      [(nextTimerId s, 25, Scheduler (current_closure s))],
          nextTimerId := Suc (nextTimerId s),
          schedulerIntervalRef := Some (nextTimerId s),
          hasCleanup := True \<rparr>)"
  by (simp add: scheduler_effect_def Let_def clearSchedulerInterval_eq scheduler_not_due
      setTimer_def current_closure_def)

subsection \<open>The invariant\<close>

lemma timer_tracked_iff:
  "timer_tracked s t =
     (case snd (snd t) of
        SetIsCountingInFalse \<Rightarrow> True
      | SetCurrentBeat v \<Rightarrow> fst t \<in> set (visualTimeoutIdsRef s)
      | Scheduler cl \<Rightarrow> schedulerIntervalRef s = Some (fst t) \<and> fst t \<noteq> 0)"
  by (cases "(s, t)" rule: timer_tracked.cases) auto

lemma timer_ok_iff:
  "timer_ok s t =
     (case snd (snd t) of
        SetIsCountingInFalse \<Rightarrow> True
      | SetCurrentBeat v \<Rightarrow> fst t \<in> set (visualTimeoutIdsRef s)
      | Scheduler cl \<Rightarrow> schedulerIntervalRef s = Some (fst t) \<and> fst t \<noteq> 0 \<and> isPlaying s \<and>
          cl = current_closure s)"
  by (cases "(s, t)" rule: timer_ok.cases) auto

lemma invariant_initial: "invariant initial"
  by (simp add: invariant_def initial_def PRESET_PATTERNS_def)

lemma rerender_changed_invariant:
  assumes "list_all (timer_tracked s) (timers s)" "nextTimerId s \<noteq> 0"
    "40 \<le> tempo s" "tempo s \<le> 240" "- 4 \<le> currentBeatRef s" "currentBeatRef s \<le> 15"
    "case PRESET_PATTERNS (currentPreset s) of None \<Rightarrow> True | Some p \<Rightarrow> clickPattern s = p"
    "length (clickPattern s) = 16"
  shows "\<exists>s'. rerender True now s = Some s' \<and> invariant s'"
proof (cases "isPlaying s")
  case True
  show ?thesis
    using assms True
    by (auto simp: rerender_def effect_playing scheduler_cleanup_def clearVisualTimeouts_eq
        clearSchedulerInterval_eq invariant_def list_all_iff timer_ok_iff timer_tracked_iff
        current_closure_def split: callback.splits option.splits)
next
  case False
  show ?thesis
    using assms False
    by (auto simp: rerender_def effect_stopped scheduler_cleanup_def clearVisualTimeouts_eq
        clearSchedulerInterval_eq invariant_def list_all_iff timer_ok_iff timer_tracked_iff
        current_closure_def split: callback.splits option.splits)
qed

lemma next_beat_range:
  "- 4 \<le> b \<Longrightarrow> b \<le> 15 \<Longrightarrow> - 4 \<le> next_beat b \<and> next_beat b \<le> 15"
  by (simp add: next_beat_def)

lemma next_beat_nonneg: "0 \<le> b \<Longrightarrow> 0 \<le> next_beat b"
  by (simp add: next_beat_def)

lemma sb_invariant:
  assumes "invariant s" "isPlaying s"
  shows "invariant (schedule_beat cl now s)"
  using assms
  by (auto simp: invariant_def sb_defs list_all_iff timer_ok_iff current_closure_def
      split: callback.splits option.splits)

lemma sb_audio:
  "audioContextRef s \<Longrightarrow> audio (schedule_beat cl now s) =
     audio s @ clicks_of cl (currentBeatRef s, nextNoteTimeRef s)"
  by (simp add: sb_defs clicks_of_def)

lemma funpow_sb_frame:
  "isPlaying ((schedule_beat cl now ^^ n) s) = isPlaying s \<and>
   isCountingIn ((schedule_beat cl now ^^ n) s) = isCountingIn s \<and>
   tempo ((schedule_beat cl now ^^ n) s) = tempo s \<and>
   volume ((schedule_beat cl now ^^ n) s) = volume s \<and>
   currentPreset ((schedule_beat cl now ^^ n) s) = currentPreset s \<and>
   clickPattern ((schedule_beat cl now ^^ n) s) = clickPattern s \<and>
   currentBeat ((schedule_beat cl now ^^ n) s) = currentBeat s \<and>
   audioContextRef ((schedule_beat cl now ^^ n) s) = audioContextRef s \<and>
   isCountingInRef ((schedule_beat cl now ^^ n) s) = isCountingInRef s"
  by (induction n) simp_all

lemma funpow_sb_invariant:
  "invariant s \<Longrightarrow> isPlaying s \<Longrightarrow> invariant ((schedule_beat cl now ^^ n) s)"
  by (induction n) (simp_all add: sb_invariant funpow_sb_frame)

lemma funpow_sb_trace:
  "currentBeatRef ((schedule_beat cl now ^^ n) s) = (next_beat ^^ n) (currentBeatRef s) \<and>
   nextNoteTimeRef ((schedule_beat cl now ^^ n) s) =
     nextNoteTimeRef s + real n * (60 / cl_tempo cl) \<and>
   scheduled ((schedule_beat cl now ^^ n) s) =
     scheduled s @ beats_from (60 / cl_tempo cl) n (currentBeatRef s) (nextNoteTimeRef s)"
proof (induction n arbitrary: s)
  case 0
  show ?case by simp
next
  case (Suc n)
  have "(schedule_beat cl now ^^ Suc n) s = (schedule_beat cl now ^^ n) (schedule_beat cl now s)"
    by (simp add: funpow_swap1)
  then show ?case
    using Suc.IH [of "schedule_beat cl now s"]
    by (simp add: funpow_swap1 distrib_right add.assoc add_divide_distrib)
qed

lemma funpow_sb_audio:
  "audioContextRef s \<Longrightarrow>
   audio ((schedule_beat cl now ^^ n) s) =
     audio s @ concat (map (clicks_of cl)
       (beats_from (60 / cl_tempo cl) n (currentBeatRef s) (nextNoteTimeRef s)))"
proof (induction n arbitrary: s)
  case 0
  show ?case by simp
next
  case (Suc n)
  have "(schedule_beat cl now ^^ Suc n) s = (schedule_beat cl now ^^ n) (schedule_beat cl now s)"
    by (simp add: funpow_swap1)
  then show ?case
    using Suc.IH [of "schedule_beat cl now s"] Suc.prems
    by (simp add: sb_audio)
qed

lemma poll_advances:
  assumes "invariant s" "isPlaying s"
  shows "\<exists>s' n. scheduler (current_closure s) now s = Some s' \<and> invariant s' \<and> advanced n s s'"
proof -
  from assms have pos: "0 < cl_tempo (current_closure s)" and ctx: "audioContextRef s"
    by (simp_all add: invariant_def current_closure_def)
  from scheduler_returns [OF pos] obtain s' where s': "scheduler (current_closure s) now s = Some s'"
    by blast
  from scheduler_Some_funpow [OF s'] obtain n
    where n: "s' = (schedule_beat (current_closure s) now ^^ n) s" by blast
  have "invariant s'"
    unfolding n using assms by (rule funpow_sb_invariant)
  moreover have "advanced n s s'"
    unfolding n advanced_def
    using funpow_sb_frame [where cl = "current_closure s" and now = now and n = n and s = s]
      funpow_sb_trace [where cl = "current_closure s" and now = now and n = n and s = s]
      funpow_sb_audio [OF ctx, where cl = "current_closure s" and now = now and n = n] assms(2)
    by (simp add: current_closure_def)
  ultimately show ?thesis using s' by blast
qed

lemma advanced_refl: "advanced 0 s s"
  by (simp add: advanced_def)

lemma find_fst_Some:
  "find (\<lambda>t. fst t = i) ts = Some (j, d, cb) \<Longrightarrow> j = i \<and> (i, d, cb) \<in> set ts"
  by (induction ts) (auto split: if_splits)

lemma fire_flip_invariant:
  assumes "invariant s"
  shows "\<exists>s'. fire i SetIsCountingInFalse now s = Some s' \<and> invariant s' \<and> advanced 0 s s'"
  using assms
  by (auto simp: fire_def rerender_def clearTimer_def invariant_def advanced_def list_all_iff
      timer_ok_iff current_closure_def split: callback.splits option.splits)

lemma fire_visual_invariant:
  assumes "invariant s" "(i, d, SetCurrentBeat v) \<in> set (timers s)"
  shows "\<exists>s'. fire i (SetCurrentBeat v) now s = Some s' \<and> invariant s' \<and> advanced 0 s s'"
  using assms
  by (auto simp: fire_def rerender_def clearTimer_def invariant_def advanced_def list_all_iff
      timer_ok_iff current_closure_def split: callback.splits option.splits)

lemma timerFires_advances:
  assumes "invariant s"
  shows "\<exists>s' n. timerFires i now s = Some s' \<and> invariant s' \<and> advanced n s s'"
proof (cases "find (\<lambda>t. fst t = i) (timers s)")
  case None
  then show ?thesis using assms advanced_refl by (auto simp: timerFires_def)
next
  case (Some t)
  obtain j d cb where t: "t = (j, d, cb)" by (cases t)
  from Some have "find (\<lambda>t. fst t = i) (timers s) = Some (j, d, cb)"
    by (simp add: t)
  from find_fst_Some [OF this] have j: "j = i" and mem: "(i, d, cb) \<in> set (timers s)"
    by simp_all
  show ?thesis
  proof (cases cb)
    case SetIsCountingInFalse
    with Some t j fire_flip_invariant [OF assms, of i now] show ?thesis
      by (auto simp: timerFires_def)
  next
    case (SetCurrentBeat v)
    with Some t j mem fire_visual_invariant [OF assms, of i d v now] show ?thesis
      by (auto simp: timerFires_def)
  next
    case (Scheduler cl)
    with mem assms have "isPlaying s" and "cl = current_closure s"
      by (auto simp: invariant_def list_all_iff timer_ok_iff)
    with Some t j Scheduler poll_advances [OF assms, of now] show ?thesis
      by (auto simp: timerFires_def fire_def)
  qed
qed

subsection \<open>The handlers\<close>

lemma invariant_tracked: "invariant s \<Longrightarrow> list_all (timer_tracked s) (timers s)"
  by (auto simp: invariant_def list_all_iff timer_ok_iff timer_tracked_iff split: callback.splits option.splits)

lemmas handler_defs = rerender_def effect_playing effect_stopped scheduler_cleanup_def
  clearVisualTimeouts_eq clearSchedulerInterval_eq invariant_def list_all_iff timer_ok_iff
  current_closure_def

lemma handleTempoChange_resyncs:
  assumes "invariant s" "40 \<le> v" "v \<le> 240" "v \<noteq> tempo s"
  shows "\<exists>s'. handleTempoChange v now s = Some s' \<and> invariant s' \<and> resynced now s s' \<and>
           tempo s' = v \<and> volume s' = volume s \<and> clickPattern s' = clickPattern s"
proof (cases "isPlaying s")
  case True
  with assms show ?thesis
    by (auto simp: handleTempoChange_def resynced_def handler_defs split: callback.splits option.splits)
next
  case False
  with assms show ?thesis
    by (auto simp: handleTempoChange_def resynced_def handler_defs split: callback.splits option.splits)
qed

lemma handleTempoChange_same:
  assumes "invariant s" "v = tempo s"
  shows "\<exists>s'. handleTempoChange v now s = Some s' \<and> invariant s' \<and> advanced 0 s s'"
  using assms
  by (auto simp: handleTempoChange_def advanced_def handler_defs split: callback.splits option.splits)

lemma handleVolumeChange_resyncs:
  assumes "invariant s" "v \<noteq> volume s"
  shows "\<exists>s'. handleVolumeChange v now s = Some s' \<and> invariant s' \<and> resynced now s s' \<and>
           tempo s' = tempo s \<and> volume s' = v \<and> clickPattern s' = clickPattern s"
proof (cases "isPlaying s")
  case True
  with assms show ?thesis
    by (auto simp: handleVolumeChange_def resynced_def handler_defs
        split: callback.splits option.splits)
next
  case False
  with assms show ?thesis
    by (auto simp: handleVolumeChange_def resynced_def handler_defs
        split: callback.splits option.splits)
qed

lemma handleVolumeChange_same:
  assumes "invariant s" "v = volume s"
  shows "\<exists>s'. handleVolumeChange v now s = Some s' \<and> invariant s' \<and> advanced 0 s s'"
  using assms
  by (auto simp: handleVolumeChange_def advanced_def handler_defs
      split: callback.splits option.splits)

lemma PRESET_custom: "PRESET_PATTERNS ''custom'' = None"
  by (simp add: PRESET_PATTERNS_def)

lemma PRESET_length: "PRESET_PATTERNS presetKey = Some p \<Longrightarrow> length p = 16"
  by (auto simp: PRESET_PATTERNS_def length_concat sum_list_replicate split: if_splits)

lemma length_toggle_at: "index < length p \<Longrightarrow> length (toggle_at p index) = length p"
  by (simp add: toggle_at_def)

lemma handlePatternToggle_resyncs:
  assumes "invariant s" "index < 16"
  shows "\<exists>s'. handlePatternToggle index now s = Some s' \<and> invariant s' \<and> resynced now s s' \<and>
           tempo s' = tempo s \<and> volume s' = volume s \<and>
           clickPattern s' = toggle_at (clickPattern s) index"
proof (cases "isPlaying s")
  case True
  with assms show ?thesis
    by (auto simp: handlePatternToggle_def resynced_def handler_defs PRESET_custom
        length_toggle_at split: callback.splits)
next
  case False
  with assms show ?thesis
    by (auto simp: handlePatternToggle_def resynced_def handler_defs PRESET_custom
        length_toggle_at split: callback.splits)
qed

lemma handlePresetChange_resyncs:
  assumes "invariant s" "PRESET_PATTERNS presetKey = Some p" "presetKey \<noteq> currentPreset s"
  shows "\<exists>s'. handlePresetChange presetKey now s = Some s' \<and> invariant s' \<and>
           resynced now s s' \<and> tempo s' = tempo s \<and> volume s' = volume s \<and>
           clickPattern s' = p"
proof (cases "isPlaying s")
  case True
  with assms PRESET_length [OF assms(2)] show ?thesis
    by (auto simp: handlePresetChange_def resynced_def handler_defs
        split: callback.splits)
next
  case False
  with assms PRESET_length [OF assms(2)] show ?thesis
    by (auto simp: handlePresetChange_def resynced_def handler_defs
        split: callback.splits)
qed

lemma handlePresetChange_same:
  assumes "invariant s" "PRESET_PATTERNS presetKey = None \<or> presetKey = currentPreset s"
  shows "\<exists>s'. handlePresetChange presetKey now s = Some s' \<and> invariant s' \<and> advanced 0 s s'"
  using assms
  by (auto simp: handlePresetChange_def advanced_def handler_defs
      split: callback.splits option.splits)

lemma is_visual_iff: "is_visual t = (\<exists>v. snd (snd t) = SetCurrentBeat v)"
  by (cases t rule: is_visual.cases) auto

lemma is_poll_iff: "is_poll t = (\<exists>cl. snd (snd t) = Scheduler cl)"
  by (cases t rule: is_poll.cases) auto

lemma stopped_no_timers:
  assumes "invariant s" "\<not> isPlaying s"
  shows "list_all (\<lambda>t. \<not> is_visual t \<and> \<not> is_poll t) (timers s) \<and> currentBeat s = - 1"
  using assms
  by (auto simp: invariant_def list_all_iff timer_ok_iff is_visual_iff is_poll_iff
      split: callback.splits)

lemma handlePlayStop_starts:
  assumes "invariant s" "\<not> isPlaying s"
  shows "\<exists>s'. handlePlayStop now s = Some s' \<and> invariant s' \<and> isPlaying s' \<and>
           currentBeatRef s' = - 4 \<and> nextNoteTimeRef s' = now + 0.1 \<and>
           isCountingIn s' \<and> isCountingInRef s' \<and>
           tempo s' = tempo s \<and> volume s' = volume s \<and> clickPattern s' = clickPattern s \<and>
           scheduled s' = scheduled s \<and> audio s' = audio s"
  using assms
  by (auto simp: handlePlayStop_def handler_defs split: callback.splits option.splits)

lemma handlePlayStop_stops:
  assumes "invariant s" "isPlaying s"
  shows "\<exists>s'. handlePlayStop now s = Some s' \<and> invariant s' \<and> \<not> isPlaying s' \<and>
           currentBeat s' = - 1 \<and> \<not> isCountingIn s' \<and> visualTimeoutIdsRef s' = [] \<and>
           currentBeatRef s' = currentBeatRef s \<and>
           scheduled s' = scheduled s \<and> audio s' = audio s"
  using assms
  by (auto simp: handlePlayStop_def handler_defs split: callback.splits option.splits)

lemma next_beat_funpow_nonneg: "0 \<le> b \<Longrightarrow> 0 \<le> (next_beat ^^ n) b"
  by (induction n) (simp_all add: next_beat_nonneg)

lemma advanced_quiet:
  assumes "advanced n s s'"
  shows "isPlaying s' = isPlaying s \<and> (0 \<le> currentBeatRef s \<longrightarrow> 0 \<le> currentBeatRef s') \<and>
         (\<not> isPlaying s \<longrightarrow> scheduled s' = scheduled s \<and> audio s' = audio s)"
  using assms by (auto simp: advanced_def next_beat_funpow_nonneg)

lemma resynced_quiet:
  assumes "resynced now s s'"
  shows "isPlaying s' = isPlaying s \<and> (0 \<le> currentBeatRef s \<longrightarrow> 0 \<le> currentBeatRef s') \<and>
         (\<not> isPlaying s \<longrightarrow> scheduled s' = scheduled s \<and> audio s' = audio s)"
  using assms by (auto simp: resynced_def split: if_splits)

lemma step_keeps_transport:
  assumes "invariant s" "valid_event e" "keeps_transport e"
  shows "\<exists>s'. step e s = Some s' \<and> invariant s' \<and>
           ((\<exists>n. advanced n s s') \<or> (\<exists>now. resynced now s s'))"
proof (cases e)
  case (PlayStop now)
  with assms show ?thesis by simp
next
  case (TempoChange v now)
  with assms have v: "40 \<le> v" "v \<le> 240" by simp_all
  show ?thesis
  proof (cases "v = tempo s")
    case True
    from handleTempoChange_same [OF assms(1) True, of now] TempoChange show ?thesis
      by auto
  next
    case False
    from handleTempoChange_resyncs [OF assms(1) v False, of now] TempoChange show ?thesis
      by auto
  qed
next
  case (VolumeChange v now)
  show ?thesis
  proof (cases "v = volume s")
    case True
    from handleVolumeChange_same [OF assms(1) True, of now] VolumeChange show ?thesis
      by auto
  next
    case False
    from handleVolumeChange_resyncs [OF assms(1) False, of now] VolumeChange show ?thesis
      by auto
  qed
next
  case (PatternToggle index now)
  with assms have "index < 16" by simp
  from handlePatternToggle_resyncs [OF assms(1) this, of now] PatternToggle show ?thesis
    by auto
next
  case (PresetChange presetKey now)
  show ?thesis
  proof (cases "PRESET_PATTERNS presetKey = None \<or> presetKey = currentPreset s")
    case True
    from handlePresetChange_same [OF assms(1) True, of now] PresetChange show ?thesis
      by auto
  next
    case False
    then obtain p where "PRESET_PATTERNS presetKey = Some p" "presetKey \<noteq> currentPreset s"
      by auto
    from handlePresetChange_resyncs [OF assms(1) this, of now] PresetChange show ?thesis
      by auto
  qed
next
  case (TimerFires i now)
  from timerFires_advances [OF assms(1), of i now] TimerFires show ?thesis
    by auto
qed

lemma step_invariant:
  assumes "invariant s" "valid_event e"
  shows "\<exists>s'. step e s = Some s' \<and> invariant s'"
proof (cases "keeps_transport e")
  case True
  from step_keeps_transport [OF assms True] show ?thesis by blast
next
  case False
  then obtain now where e: "e = PlayStop now" by (cases e) simp_all
  show ?thesis
  proof (cases "isPlaying s")
    case True
    from handlePlayStop_stops [OF assms(1) True, of now] e show ?thesis by auto
  next
    case False
    from handlePlayStop_starts [OF assms(1) False, of now] e show ?thesis by auto
  qed
qed

lemma run_invariant:
  "invariant s \<Longrightarrow> list_all valid_event es \<Longrightarrow> \<exists>s'. run es s = Some s' \<and> invariant s'"
proof (induction es arbitrary: s)
  case Nil
  then show ?case by simp
next
  case (Cons e es)
  from Cons.prems step_invariant [of s e] obtain s1
    where s1: "step e s = Some s1" "invariant s1" by auto
  from Cons.IH [OF s1(2)] Cons.prems s1 show ?case by auto
qed

lemma reachable_invariant:
  assumes "reachable s"
  shows "invariant s"
proof -
  from assms obtain es where es: "list_all valid_event es" "run es initial = Some s"
    by (auto simp: reachable_def)
  from run_invariant [OF invariant_initial es(1)] es(2) show ?thesis by auto
qed


lemma run_append:
  "run (es @ es') s = (case run es s of None \<Rightarrow> None | Some s1 \<Rightarrow> run es' s1)"
  by (induction es arbitrary: s) (auto split: option.splits)

lemma reachable_run:
  assumes "reachable s" "list_all valid_event es" "run es s = Some s'"
  shows "reachable s'"
proof -
  from assms(1) obtain es0 where "list_all valid_event es0" "run es0 initial = Some s"
    by (auto simp: reachable_def)
  with assms(2,3) have "list_all valid_event (es0 @ es) \<and> run (es0 @ es) initial = Some s'"
    by (simp add: run_append)
  then show ?thesis unfolding reachable_def by blast
qed

lemma run_keeps_transport:
  "invariant s \<Longrightarrow> list_all valid_event es \<Longrightarrow> list_all keeps_transport es \<Longrightarrow>
   \<exists>s'. run es s = Some s' \<and> invariant s' \<and> isPlaying s' = isPlaying s \<and>
     (0 \<le> currentBeatRef s \<longrightarrow> 0 \<le> currentBeatRef s') \<and>
     (\<not> isPlaying s \<longrightarrow> scheduled s' = scheduled s \<and> audio s' = audio s)"
proof (induction es arbitrary: s)
  case Nil
  then show ?case by simp
next
  case (Cons e es)
  from Cons.prems step_keeps_transport [of s e] obtain s1
    where s1: "step e s = Some s1" "invariant s1"
      and k: "(\<exists>n. advanced n s s1) \<or> (\<exists>now. resynced now s s1)" by auto
  from k have q: "isPlaying s1 = isPlaying s \<and> (0 \<le> currentBeatRef s \<longrightarrow> 0 \<le> currentBeatRef s1) \<and>
         (\<not> isPlaying s \<longrightarrow> scheduled s1 = scheduled s \<and> audio s1 = audio s)"
    using advanced_quiet resynced_quiet by blast
  from Cons.IH [OF s1(2)] Cons.prems obtain s' where
    "run es s1 = Some s'" "invariant s'" "isPlaying s' = isPlaying s1"
    "0 \<le> currentBeatRef s1 \<longrightarrow> 0 \<le> currentBeatRef s'"
    "\<not> isPlaying s1 \<longrightarrow> scheduled s' = scheduled s1 \<and> audio s' = audio s1"
    by auto
  with s1 q show ?case by auto
qed

subsection \<open>Runs of timer events\<close>

lemma length_beats_from [simp]: "length (beats_from d n b t) = n"
  by (induction n arbitrary: b t) simp_all


lemma beats_from_nth:
  "k < n \<Longrightarrow> beats_from d n b t ! k = ((next_beat ^^ k) b, t + real k * d)"
proof (induction n arbitrary: k b t)
  case 0
  then show ?case by simp
next
  case (Suc n)
  show ?case
  proof (cases k)
    case 0
    then show ?thesis by simp
  next
    case (Suc j)
    with Suc.prems have "j < n" by simp
    from Suc.IH [OF this, of "next_beat b" "t + d"] Suc show ?thesis
      by (simp add: funpow_swap1 distrib_right add.assoc)
  qed
qed





lemma timer_events_valid: "list_all is_timer_event es \<Longrightarrow> list_all valid_event es"
proof (induction es)
  case Nil
  show ?case by simp
next
  case (Cons e es)
  then show ?case by (cases e) simp_all
qed

section \<open>The cursor, resynchronisation and stopping\<close>

lemmas eval_defs = run.simps step.simps handlePlayStop_def handleTempoChange_def
  handleVolumeChange_def handlePatternToggle_def handlePresetChange_def rerender_def
  scheduler_effect_def scheduler_cleanup_def clearVisualTimeouts_def clearSchedulerInterval_def
  clearTimer_def setTimer_def timerFires_def fire_def schedule_beat_def playClick_def
  clamp_delay_def pattern_at_def js_rem_def initial_def current_closure_def toggle_at_def
  PRESET_PATTERNS_def scheduler.simps Let_def

lemma next_beat_funpow_range:
  "- 4 \<le> b \<Longrightarrow> b \<le> 15 \<Longrightarrow> - 4 \<le> (next_beat ^^ n) b \<and> (next_beat ^^ n) b \<le> 15"
  by (induction n) (simp_all add: next_beat_range)

text \<open>
  C4. In every reachable state the cursor \<open>currentBeatRef\<close> is between \<open>-4\<close> and \<open>15\<close>, also
  between the iterations of the scheduler's loop. An iteration adds one to it, except
  that \<open>15\<close> is followed by \<open>0\<close>. Once it is at least \<open>0\<close> it stays so whatever happens,
  as long as the play/stop button is not pressed.
\<close>

theorem cursor_in_range:
  assumes "reachable s"
  shows "- 4 \<le> currentBeatRef s \<and> currentBeatRef s \<le> 15 \<and>
         (\<forall>cl now n. - 4 \<le> currentBeatRef ((schedule_beat cl now ^^ n) s) \<and>
                     currentBeatRef ((schedule_beat cl now ^^ n) s) \<le> 15) \<and>
         (\<forall>cl now. currentBeatRef (schedule_beat cl now s) =
                     (if currentBeatRef s = 15 then 0 else currentBeatRef s + 1)) \<and>
         (\<forall>es. 0 \<le> currentBeatRef s \<and> list_all valid_event es \<and> list_all keeps_transport es
               \<longrightarrow> (\<exists>s'. run es s = Some s' \<and> 0 \<le> currentBeatRef s'))"
proof -
  from assms have inv: "invariant s" by (rule reachable_invariant)
  then have range: "- 4 \<le> currentBeatRef s" "currentBeatRef s \<le> 15"
    by (simp_all add: invariant_def)
  have loop: "- 4 \<le> currentBeatRef ((schedule_beat cl now ^^ n) s) \<and>
              currentBeatRef ((schedule_beat cl now ^^ n) s) \<le> 15" for cl now n
    using funpow_sb_trace [where cl = cl and now = now and n = n and s = s]
      next_beat_funpow_range [OF range, of n] by simp
  have one: "currentBeatRef (schedule_beat cl now s) =
             (if currentBeatRef s = 15 then 0 else currentBeatRef s + 1)" for cl now
    using range by (simp add: next_beat_def)
  have stay: "\<exists>s'. run es s = Some s' \<and> 0 \<le> currentBeatRef s'"
    if "0 \<le> currentBeatRef s \<and> list_all valid_event es \<and> list_all keeps_transport es" for es
    using run_keeps_transport [OF inv, of es] that by blast
  from range loop one stay show ?thesis by blast
qed

lemma reachableI:
  "list_all valid_event es \<Longrightarrow> run es initial = Some s \<Longrightarrow> reachable s"
  unfolding reachable_def by blast

theorem cursor_in_range_witness:
  "\<exists>s. run [PlayStop 0, TimerFires 1 2.05] initial = Some s \<and> reachable s \<and>
        currentBeatRef s = 1 \<and>
        list_all valid_event [TempoChange 100 2.06, TimerFires 3 2.2] \<and>
        list_all keeps_transport [TempoChange 100 2.06, TimerFires 3 2.2] \<and>
        currentBeatRef (schedule_beat (current_closure s) 2.5 s) = 2 \<and>
        (\<exists>s'. run [TempoChange 100 2.06, TimerFires 3 2.2] s = Some s' \<and> 0 \<le> currentBeatRef s')"
proof -
  define s where "s = the (run [PlayStop 0, TimerFires 1 2.05] initial)"
  have run: "run [PlayStop 0, TimerFires 1 2.05] initial = Some s"
    unfolding s_def by (simp add: eval_defs)
  have cur: "currentBeatRef s = 1"
    unfolding s_def by (simp add: eval_defs)
  have r: "reachable s"
    by (rule reachableI [OF _ run]) simp
  have ev: "list_all valid_event [TempoChange 100 2.06, TimerFires 3 2.2]"
    "list_all keeps_transport [TempoChange 100 2.06, TimerFires 3 2.2]"
    by simp_all
  have nn: "0 \<le> currentBeatRef s" using cur by simp
  from cursor_in_range [OF r] nn ev
  have later: "\<exists>s'. run [TempoChange 100 2.06, TimerFires 3 2.2] s = Some s' \<and>
                 0 \<le> currentBeatRef s'"
    by blast
  from cursor_in_range [OF r]
  have "currentBeatRef (schedule_beat (current_closure s) 2.5 s) =
          (if currentBeatRef s = 15 then 0 else currentBeatRef s + 1)"
    by blast
  with cur have one: "currentBeatRef (schedule_beat (current_closure s) 2.5 s) = 2"
    by simp
  from run r cur ev one later show ?thesis by blast
qed

text \<open>
  C5. While the transport is playing, a change of the tempo or of the pattern (by one of
  the sixteen pattern buttons or by a preset) puts the cursor at \<open>0\<close> and the next event \<open>0.1\<close> s after
  the clock reading of the change, whatever the next event was before, and ends the
  count-in: \<open>isCountingIn\<close> and its ref are \<open>false\<close>. The effect itself schedules no beat.
\<close>

theorem settings_change_resyncs:
  assumes "reachable s" and "isPlaying s"
  shows "(\<forall>v. 40 \<le> v \<and> v \<le> 240 \<and> v \<noteq> tempo s \<longrightarrow>
            (\<exists>s'. handleTempoChange v now s = Some s' \<and> tempo s' = v \<and> isPlaying s' \<and>
               currentBeatRef s' = 0 \<and> nextNoteTimeRef s' = now + 0.1 \<and>
               \<not> isCountingIn s' \<and> \<not> isCountingInRef s' \<and> scheduled s' = scheduled s)) \<and>
         (\<forall>index. index < 16 \<longrightarrow>
            (\<exists>s'. handlePatternToggle index now s = Some s' \<and>
               clickPattern s' = toggle_at (clickPattern s) index \<and> isPlaying s' \<and>
               currentBeatRef s' = 0 \<and> nextNoteTimeRef s' = now + 0.1 \<and>
               \<not> isCountingIn s' \<and> \<not> isCountingInRef s' \<and> scheduled s' = scheduled s)) \<and>
         (\<forall>presetKey p. PRESET_PATTERNS presetKey = Some p \<and> presetKey \<noteq> currentPreset s \<longrightarrow>
            (\<exists>s'. handlePresetChange presetKey now s = Some s' \<and> clickPattern s' = p \<and>
               isPlaying s' \<and>
               currentBeatRef s' = 0 \<and> nextNoteTimeRef s' = now + 0.1 \<and>
               \<not> isCountingIn s' \<and> \<not> isCountingInRef s' \<and> scheduled s' = scheduled s))"
proof (intro conjI allI impI)
  from assms(1) have inv: "invariant s" by (rule reachable_invariant)
  show "\<exists>s'. handleTempoChange v now s = Some s' \<and> tempo s' = v \<and> isPlaying s' \<and>
               currentBeatRef s' = 0 \<and> nextNoteTimeRef s' = now + 0.1 \<and>
               \<not> isCountingIn s' \<and> \<not> isCountingInRef s' \<and> scheduled s' = scheduled s"
    if "40 \<le> v \<and> v \<le> 240 \<and> v \<noteq> tempo s" for v
  proof -
    from that have v: "40 \<le> v" "v \<le> 240" "v \<noteq> tempo s" by simp_all
    from handleTempoChange_resyncs [OF inv v, of now] assms(2) show ?thesis
      by (auto simp: resynced_def)
  qed
  show "\<exists>s'. handlePatternToggle index now s = Some s' \<and>
               clickPattern s' = toggle_at (clickPattern s) index \<and> isPlaying s' \<and>
               currentBeatRef s' = 0 \<and> nextNoteTimeRef s' = now + 0.1 \<and>
               \<not> isCountingIn s' \<and> \<not> isCountingInRef s' \<and> scheduled s' = scheduled s"
    if "index < 16" for index
    using handlePatternToggle_resyncs [OF inv that, of now] assms(2)
    by (auto simp: resynced_def)
  show "\<exists>s'. handlePresetChange presetKey now s = Some s' \<and> clickPattern s' = p \<and>
               isPlaying s' \<and>
               currentBeatRef s' = 0 \<and> nextNoteTimeRef s' = now + 0.1 \<and>
               \<not> isCountingIn s' \<and> \<not> isCountingInRef s' \<and> scheduled s' = scheduled s"
    if "PRESET_PATTERNS presetKey = Some p \<and> presetKey \<noteq> currentPreset s" for presetKey p
  proof -
    from that have k: "PRESET_PATTERNS presetKey = Some p" "presetKey \<noteq> currentPreset s"
      by simp_all
    from handlePresetChange_resyncs [OF inv k, of now] assms(2) show ?thesis
      by (auto simp: resynced_def)
  qed
qed

theorem settings_change_resyncs_witness:
  "\<exists>s. run [PlayStop 0, TimerFires 1 2.05] initial = Some s \<and> reachable s \<and> isPlaying s \<and>
        currentBeatRef s = 1 \<and> nextNoteTimeRef s = 2.6 \<and> tempo s = 120 \<and>
        (\<exists>s'. handleTempoChange 90 2.2 s = Some s' \<and> tempo s' = 90 \<and>
               currentBeatRef s' = 0 \<and> nextNoteTimeRef s' = 2.2 + 0.1 \<and> \<not> isCountingIn s') \<and>
        (\<exists>s'. handlePatternToggle 3 2.2 s = Some s' \<and>
               currentBeatRef s' = 0 \<and> nextNoteTimeRef s' = 2.2 + 0.1 \<and> \<not> isCountingIn s') \<and>
        PRESET_PATTERNS ''gallop'' = Some (concat (replicate 4 [True, True, False, True])) \<and>
        ''gallop'' \<noteq> currentPreset s \<and>
        (\<exists>s'. handlePresetChange ''gallop'' 2.2 s = Some s' \<and>
               currentBeatRef s' = 0 \<and> nextNoteTimeRef s' = 2.2 + 0.1 \<and> \<not> isCountingIn s')"
proof -
  define s where "s = the (run [PlayStop 0, TimerFires 1 2.05] initial)"
  have run: "run [PlayStop 0, TimerFires 1 2.05] initial = Some s"
    unfolding s_def by (simp add: eval_defs)
  have vals: "isPlaying s" "currentBeatRef s = 1" "nextNoteTimeRef s = 2.6" "tempo s = 120"
    "''gallop'' \<noteq> currentPreset s"
    unfolding s_def by (simp_all add: eval_defs)
  have r: "reachable s"
    by (rule reachableI [OF _ run]) simp
  have g: "PRESET_PATTERNS ''gallop'' = Some (concat (replicate 4 [True, True, False, True]))"
    by (simp add: PRESET_PATTERNS_def)
  note inst = settings_change_resyncs [OF r vals(1), of "2.2"]
  have ne: "(40::real) \<le> 90 \<and> (90::real) \<le> 240 \<and> 90 \<noteq> tempo s"
    using vals by simp
  from inst ne have t: "\<exists>s'. handleTempoChange 90 2.2 s = Some s' \<and> tempo s' = 90 \<and>
               currentBeatRef s' = 0 \<and> nextNoteTimeRef s' = 2.2 + 0.1 \<and> \<not> isCountingIn s'"
    by blast
  have "(3::nat) < 16" by simp
  with inst have p: "\<exists>s'. handlePatternToggle 3 2.2 s = Some s' \<and>
               currentBeatRef s' = 0 \<and> nextNoteTimeRef s' = 2.2 + 0.1 \<and> \<not> isCountingIn s'"
    by blast
  from inst g vals(5) have q: "\<exists>s'. handlePresetChange ''gallop'' 2.2 s = Some s' \<and>
               currentBeatRef s' = 0 \<and> nextNoteTimeRef s' = 2.2 + 0.1 \<and> \<not> isCountingIn s'"
    by blast
  from run r vals g t p q show ?thesis by blast
qed

text \<open>
  C6. Pressing stop while playing leaves no scheduler interval and no highlight update
  in the timer table, empties \<open>visualTimeoutIdsRef\<close> and sets the highlighted beat
  \<open>currentBeat\<close> to \<open>-1\<close>. Whatever happens afterwards, short of pressing play again, the
  highlighted beat stays \<open>-1\<close>, no highlight update or scheduler interval becomes pending,
  and no further beat is scheduled.
\<close>

theorem stop_cancels_visual_updates:
  assumes "reachable s" and "isPlaying s"
    and "list_all valid_event es" and "list_all keeps_transport es"
  shows "\<exists>s1 s2. handlePlayStop now s = Some s1 \<and> \<not> isPlaying s1 \<and>
           currentBeat s1 = - 1 \<and> visualTimeoutIdsRef s1 = [] \<and>
           list_all (\<lambda>t. \<not> is_visual t \<and> \<not> is_poll t) (timers s1) \<and>
           run es s1 = Some s2 \<and> \<not> isPlaying s2 \<and>
           currentBeat s2 = - 1 \<and> visualTimeoutIdsRef s2 = [] \<and>
           list_all (\<lambda>t. \<not> is_visual t \<and> \<not> is_poll t) (timers s2) \<and>
           scheduled s2 = scheduled s \<and> audio s2 = audio s"
proof -
  from assms(1) have inv: "invariant s" by (rule reachable_invariant)
  from handlePlayStop_stops [OF inv assms(2), of now] obtain s1
    where s1: "handlePlayStop now s = Some s1" "invariant s1" "\<not> isPlaying s1"
      "visualTimeoutIdsRef s1 = []" "scheduled s1 = scheduled s" "audio s1 = audio s"
    by blast
  from run_keeps_transport [OF s1(2) assms(3,4)] s1(3) obtain s2
    where s2: "run es s1 = Some s2" "invariant s2" "\<not> isPlaying s2"
      "scheduled s2 = scheduled s1" "audio s2 = audio s1"
    by auto
  from s2(2,3) have ids: "visualTimeoutIdsRef s2 = []"
    by (simp add: invariant_def)
  from stopped_no_timers [OF s1(2,3)] stopped_no_timers [OF s2(2,3)] s1 s2 ids
  show ?thesis by auto
qed

theorem stop_cancels_visual_updates_witness:
  "\<exists>s. run [PlayStop 0, TimerFires 1 2.05] initial = Some s \<and> reachable s \<and> isPlaying s \<and>
        visualTimeoutIdsRef s = [2, 3, 4, 5, 7] \<and>
        list_all valid_event [TimerFires 2 2.2, TimerFires 6 2.2, TempoChange 100 3, TimerFires 1 4] \<and>
        list_all keeps_transport
          [TimerFires 2 2.2, TimerFires 6 2.2, TempoChange 100 3, TimerFires 1 4] \<and>
        (\<exists>s1 s2. handlePlayStop 2.1 s = Some s1 \<and> currentBeat s1 = - 1 \<and>
           visualTimeoutIdsRef s1 = [] \<and>
           run [TimerFires 2 2.2, TimerFires 6 2.2, TempoChange 100 3, TimerFires 1 4] s1 = Some s2 \<and>
           currentBeat s2 = - 1 \<and> scheduled s2 = scheduled s)"
proof -
  define s where "s = the (run [PlayStop 0, TimerFires 1 2.05] initial)"
  have run: "run [PlayStop 0, TimerFires 1 2.05] initial = Some s"
    unfolding s_def by (simp add: eval_defs)
  have vals: "isPlaying s" "visualTimeoutIdsRef s = [2, 3, 4, 5, 7]"
    unfolding s_def by (simp_all add: eval_defs)
  have r: "reachable s"
    by (rule reachableI [OF _ run]) simp
  have ev: "list_all valid_event
              [TimerFires 2 2.2, TimerFires 6 2.2, TempoChange 100 3, TimerFires 1 4]"
    "list_all keeps_transport
              [TimerFires 2 2.2, TimerFires 6 2.2, TempoChange 100 3, TimerFires 1 4]"
    by simp_all
  from stop_cancels_visual_updates [OF r vals(1) ev, of "2.1"]
  have "\<exists>s1 s2. handlePlayStop 2.1 s = Some s1 \<and> currentBeat s1 = - 1 \<and>
           visualTimeoutIdsRef s1 = [] \<and>
           run [TimerFires 2 2.2, TimerFires 6 2.2, TempoChange 100 3, TimerFires 1 4] s1 = Some s2 \<and>
           currentBeat s2 = - 1 \<and> scheduled s2 = scheduled s"
    by blast
  with run r vals ev show ?thesis by blast
qed

section \<open>Timing and the count-in\<close>


subsection \<open>Timer ids, and the poll that is pending\<close>















lemma current_closure_sb [simp]:
  "current_closure (schedule_beat cl now s) = current_closure s"
  by (simp add: current_closure_def)









lemma beat_time_closed: "beat_time t d k = t + real k * d"
  by (induction k) (simp_all add: distrib_right)


lemma beats_from_time:
  "k < n \<Longrightarrow> snd (beats_from d n b t ! k) = beat_time t d k"
  by (simp add: beats_from_nth beat_time_closed)










section \<open>Volume changes\<close>

text \<open>
  C7. A change of the volume was meant to leave the scheduler alone. It does not: the
  new volume makes a new \<open>playClick\<close>, which is a dependency of the scheduler effect, so the
  effect runs again through the branch commented \<open>Tempo or pattern change while playing\<close>.
  Here the transport has been started at clock time \<open>0\<close>, one late poll at \<open>2.55\<close> has
  scheduled the count-in and the pattern beats \<open>0\<close> and \<open>1\<close>, and the count-in has ended.
  Moving the volume slider from \<open>0.5\<close> to \<open>0.8\<close> at \<open>2.6\<close> takes the cursor from \<open>2\<close> back
  to \<open>0\<close>, the next event from \<open>3.1\<close> to \<open>2.7\<close>, and cancels the six pending highlight
  updates.
\<close>

theorem volume_change_resets_scheduler:
  "\<exists>s s'. run [PlayStop 0, TimerFires 1 2.55, TimerFires 6 2.56] initial = Some s \<and>
      isPlaying s \<and> \<not> isCountingIn s \<and> volume s = 0.5 \<and>
      currentBeatRef s = 2 \<and> nextNoteTimeRef s = 3.1 \<and>
      visualTimeoutIdsRef s = [2, 3, 4, 5, 7, 8] \<and>
      handleVolumeChange 0.8 2.6 s = Some s' \<and> volume s' = 0.8 \<and>
      currentBeatRef s' = 0 \<and> nextNoteTimeRef s' = 2.7 \<and>
      visualTimeoutIdsRef s' = [] \<and> list_all (\<lambda>t. \<not> is_visual t) (timers s')"
proof -
  define s where "s = the (run [PlayStop 0, TimerFires 1 2.55, TimerFires 6 2.56] initial)"
  define s' where "s' = the (handleVolumeChange 0.8 2.6 s)"
  have a: "run [PlayStop 0, TimerFires 1 2.55, TimerFires 6 2.56] initial = Some s"
    unfolding s_def by (simp add: eval_defs)
  have b: "isPlaying s" "\<not> isCountingIn s" "volume s = 0.5" "currentBeatRef s = 2"
    "nextNoteTimeRef s = 3.1" "visualTimeoutIdsRef s = [2, 3, 4, 5, 7, 8]"
    unfolding s_def by (simp_all add: eval_defs)
  have c: "handleVolumeChange 0.8 2.6 s = Some s'"
    unfolding s'_def s_def by (simp add: eval_defs)
  have d: "volume s' = 0.8" "currentBeatRef s' = 0" "nextNoteTimeRef s' = 2.7"
    "visualTimeoutIdsRef s' = []" "list_all (\<lambda>t. \<not> is_visual t) (timers s')"
    unfolding s'_def s_def by (simp_all add: eval_defs)
  from a b c d show ?thesis by (intro exI conjI)
qed

section \<open>The two copies of the scheduler\<close>

lemma schedule_beat_root_eq: "schedule_beat_root cl now s = schedule_beat cl now s"
  by (simp only: schedule_beat_root_def schedule_beat_def)

lemma scheduler_le_root:
  assumes "scheduler cl now s = Some s'"
  shows "scheduler_root cl now s = Some s'"
proof (rule scheduler.raw_induct
    [where P = "\<lambda>cl now s s'. scheduler_root cl now s = Some s'", OF _ assms])
  fix sch :: "closure \<Rightarrow> real \<Rightarrow> app \<Rightarrow> app option" and cl now s s'
  assume IH: "\<And>cl now s s'. sch cl now s = Some s' \<Longrightarrow> scheduler_root cl now s = Some s'"
    and eq: "(if nextNoteTimeRef s < now + 1 / 10
              then sch cl now (schedule_beat cl now s) else Some s) = Some s'"
  show "scheduler_root cl now s = Some s'"
  proof (cases "nextNoteTimeRef s < now + 1 / 10")
    case True
    with eq have "sch cl now (schedule_beat cl now s) = Some s'" by simp
    from IH [OF this] True show ?thesis
      by (subst scheduler_root.simps) (simp add: schedule_beat_root_eq)
  next
    case False
    with eq show ?thesis by (subst scheduler_root.simps) simp
  qed
qed

lemma scheduler_root_le:
  assumes "scheduler_root cl now s = Some s'"
  shows "scheduler cl now s = Some s'"
proof (rule scheduler_root.raw_induct
    [where P = "\<lambda>cl now s s'. scheduler cl now s = Some s'", OF _ assms])
  fix sch :: "closure \<Rightarrow> real \<Rightarrow> app \<Rightarrow> app option" and cl now s s'
  assume IH: "\<And>cl now s s'. sch cl now s = Some s' \<Longrightarrow> scheduler cl now s = Some s'"
    and eq: "(if nextNoteTimeRef s < now + 1 / 10
              then sch cl now (schedule_beat_root cl now s) else Some s) = Some s'"
  show "scheduler cl now s = Some s'"
  proof (cases "nextNoteTimeRef s < now + 1 / 10")
    case True
    with eq have "sch cl now (schedule_beat_root cl now s) = Some s'" by simp
    from IH [OF this] True show ?thesis
      by (subst scheduler.simps) (simp add: schedule_beat_root_eq)
  next
    case False
    with eq show ?thesis by (subst scheduler.simps) simp
  qed
qed

text \<open>
  C10. For every state (cursor, next event time, count-in flag and all the rest), every
  tempo, pattern and volume in the closure and every clock reading, one call of the
  \<open>scheduler\<close> of \<open>src/App.tsx\<close> and one call of the \<open>scheduler\<close> of \<open>src/src/App.tsx\<close> give
  the same result: the same clicks, timers and scheduled beats, the same cursor and next
  event time; and one does not return exactly when the other does not.
\<close>

theorem schedulers_agree:
  "scheduler_root cl now s = scheduler cl now s"
proof (cases "scheduler cl now s")
  case (Some s')
  then show ?thesis by (simp add: scheduler_le_root)
next
  case None
  show ?thesis
  proof (cases "scheduler_root cl now s")
    case (Some s')
    from scheduler_root_le [OF this] None show ?thesis by simp
  next
    case N: None
    with None show ?thesis by simp
  qed
qed

section \<open>The recorder\<close>




lemma stop_tracks_frame [simp]:
  "isRecording (stop_tracks i s) = isRecording s"
  "recordingError (stop_tracks i s) = recordingError s"
  "recorders (stop_tracks i s) = recorders s"
  "mediaRecorderRef (stop_tracks i s) = mediaRecorderRef s"
  "streamRef (stop_tracks i s) = streamRef s"
  "length (streams (stop_tracks i s)) = length (streams s)"
  by (simp_all add: stop_tracks_def)







subsection \<open>File names\<close>

lemma digit_in: "digit n \<in> set ''0123456789''"
proof -
  have "n mod 10 < length ''0123456789''" by simp
  then show ?thesis unfolding digit_def by (rule nth_mem)
qed

lemma digit_neq [simp]: "digit n \<noteq> CHR ''T''" "digit n \<noteq> CHR '':''"
  using digit_in [of n] by auto

lemma timestamp_of_date:
  assumes "utcFullYear d \<le> 9999"
  shows "replace_all CHR '':'' CHR ''-''
           (replace_first CHR ''T'' CHR ''_'' (take 19 (toISOString d))) =
         pad4 (utcFullYear d) @ ''-'' @ pad2 (utcMonth d) @ ''-'' @ pad2 (utcDate d) @ ''_'' @
         pad2 (utcHours d) @ ''-'' @ pad2 (utcMinutes d) @ ''-'' @ pad2 (utcSeconds d)"
  using assms
  by (simp add: toISOString_def pad2_def pad3_def pad4_def replace_all_def)

lemma blob_type_formats:
  "blob_type ''audio/mp4'' = ''audio/mp4''"
  "blob_type ''audio/webm;codecs=opus'' = ''audio/webm;codecs=opus''"
  "blob_type ''audio/webm'' = ''audio/webm''"
  by code_simp+

lemma includes_formats:
  "includes_str (blob_type ''audio/mp4'') ''mp4''"
  "\<not> includes_str (blob_type ''audio/webm;codecs=opus'') ''mp4''"
  "\<not> includes_str (blob_type ''audio/webm'') ''mp4''"
  by (simp_all add: blob_type_formats)

lemma onstop_recordedAudio:
  assumes "recordedChunksRef s0 \<noteq> []" and "mediaRecorderRef s0 = Some r"
    and "r < length (recorders s0)"
  shows "recordedAudio (onstop supportedType url s0) =
           Some (url, blob_type (if mr_mimeType (recorders s0 ! r) \<noteq> []
                                 then mr_mimeType (recorders s0 ! r) else supportedType))"
  using assms by (simp add: onstop_def Let_def)

text \<open>
  C9, as the code has it. In \<open>src/src/App.tsx\<close> the name of a saved recording is
  \<open>metronome-recording_\<close>, the UTC date \<open>YYYY-MM-DD\<close>, an underscore, the UTC time
  \<open>HH-mm-ss\<close>, a dot and the extension: the first 19 characters of \<open>toISOString()\<close> with \<open>T\<close>
  replaced by \<open>_\<close> and every \<open>:\<close> by \<open>-\<close> (years up to 9999). The extension is \<open>mp4\<close> when
  the type of the recording contains \<open>mp4\<close>, else \<open>webm\<close>. The type of the recording is
  stored by \<open>onstop\<close>: it is the type of the blob made of the chunks, which is the
  \<open>mimeType\<close> of the recorder in \<open>mediaRecorderRef\<close> (the type the recorder was asked for
  when that is empty) as \<open>Blob\<close> normalises it, in lower case. Of the three types the
  recorder may be asked for, \<open>audio/mp4\<close> yields \<open>mp4\<close> and the two \<open>audio/webm\<close> types
  yield \<open>webm\<close>. In \<open>src/App.tsx\<close> the name has the same timestamp and always ends in
  \<open>.webm\<close>.
\<close>

theorem saved_name_format:
  assumes "recordedAudio s = Some (url, type)" and "utcFullYear date \<le> 9999"
  shows "handleSaveRecording date s =
           Some (''metronome-recording_'' @
                 pad4 (utcFullYear date) @ ''-'' @ pad2 (utcMonth date) @ ''-'' @
                 pad2 (utcDate date) @ ''_'' @
                 pad2 (utcHours date) @ ''-'' @ pad2 (utcMinutes date) @ ''-'' @
                 pad2 (utcSeconds date) @
                 ''.'' @ (if includes_str type ''mp4'' then ''mp4'' else ''webm''),
                 if includes_str type ''mp4'' then ''audio/mp4'' else ''audio/webm'') \<and>
         includes_str (blob_type ''audio/mp4'') ''mp4'' \<and>
         \<not> includes_str (blob_type ''audio/webm;codecs=opus'') ''mp4'' \<and>
         \<not> includes_str (blob_type ''audio/webm'') ''mp4'' \<and>
         (\<forall>r supportedType url' s0.
            recordedChunksRef s0 \<noteq> [] \<and> mediaRecorderRef s0 = Some r \<and>
            r < length (recorders s0) \<longrightarrow>
            recordedAudio (onstop supportedType url' s0) =
              Some (url', blob_type (if mr_mimeType (recorders s0 ! r) \<noteq> []
                                     then mr_mimeType (recorders s0 ! r)
                                     else supportedType))) \<and>
         (\<forall>url0 r0.
            recordedAudioUrl r0 = Some url0 \<and> url0 \<noteq> [] \<longrightarrow>
            handleSaveRecording_root date r0 =
              Some (''metronome-recording_'' @
                    pad4 (utcFullYear date) @ ''-'' @ pad2 (utcMonth date) @ ''-'' @
                    pad2 (utcDate date) @ ''_'' @
                    pad2 (utcHours date) @ ''-'' @ pad2 (utcMinutes date) @ ''-'' @
                    pad2 (utcSeconds date) @ ''.webm''))"
proof (intro conjI allI impI)
  show "handleSaveRecording date s =
           Some (''metronome-recording_'' @
                 pad4 (utcFullYear date) @ ''-'' @ pad2 (utcMonth date) @ ''-'' @
                 pad2 (utcDate date) @ ''_'' @
                 pad2 (utcHours date) @ ''-'' @ pad2 (utcMinutes date) @ ''-'' @
                 pad2 (utcSeconds date) @
                 ''.'' @ (if includes_str type ''mp4'' then ''mp4'' else ''webm''),
                 if includes_str type ''mp4'' then ''audio/mp4'' else ''audio/webm'')"
    using assms(1) timestamp_of_date [OF assms(2)]
    by (simp add: handleSaveRecording_def Let_def)
  show "includes_str (blob_type ''audio/mp4'') ''mp4''"
    and "\<not> includes_str (blob_type ''audio/webm;codecs=opus'') ''mp4''"
    and "\<not> includes_str (blob_type ''audio/webm'') ''mp4''"
    by (rule includes_formats)+
  show "recordedAudio (onstop supportedType url' s0) =
              Some (url', blob_type (if mr_mimeType (recorders s0 ! r) \<noteq> []
                                     then mr_mimeType (recorders s0 ! r)
                                     else supportedType))"
    if "recordedChunksRef s0 \<noteq> [] \<and> mediaRecorderRef s0 = Some r \<and>
            r < length (recorders s0)"
    for r supportedType url' s0
    using that by (simp add: onstop_recordedAudio)
  show "handleSaveRecording_root date r0 =
              Some (''metronome-recording_'' @
                    pad4 (utcFullYear date) @ ''-'' @ pad2 (utcMonth date) @ ''-'' @
                    pad2 (utcDate date) @ ''_'' @
                    pad2 (utcHours date) @ ''-'' @ pad2 (utcMinutes date) @ ''-'' @
                    pad2 (utcSeconds date) @ ''.webm'')"
    if "recordedAudioUrl r0 = Some url0 \<and> url0 \<noteq> []" for url0 r0
    using that timestamp_of_date [OF assms(2)]
    by (simp add: handleSaveRecording_root_def Let_def)
qed

text \<open>
  C9, as the specification words it, does not hold. For a recording of type \<open>audio/mp4\<close>
  saved at 2024-01-02, 03:04:05.678 UTC the name is
  \<open>metronome-recording_2024-01-02_03-04-05.mp4\<close>: neither the ISO 8601 timestamp to the
  second nor the full one, with the colons replaced, gives this name, since the \<open>T\<close>
  has become an underscore.
\<close>

theorem saved_name_is_not_iso_with_dashes:
  "handleSaveRecording jan2 recorded_mp4 =
     Some (''metronome-recording_2024-01-02_03-04-05.mp4'', ''audio/mp4'') \<and>
   fst (the (handleSaveRecording jan2 recorded_mp4)) \<noteq>
     iso_name_with_dashes ''2024-01-02T03:04:05'' ''mp4'' \<and>
   fst (the (handleSaveRecording jan2 recorded_mp4)) \<noteq>
     iso_name_with_dashes (toISOString jan2) ''mp4''"
  by (simp add: handleSaveRecording_def Let_def jan2_def recorded_mp4_def recorder_initial_def
      toISOString_def pad2_def pad3_def pad4_def digit_def replace_all_def iso_name_with_dashes_def)

theorem saved_name_format_witness:
  "recordedAudio recorded_mp4 = Some (''blob:1'', ''audio/mp4'') \<and> utcFullYear jan2 \<le> 9999 \<and>
   handleSaveRecording jan2 recorded_mp4 =
     Some (''metronome-recording_2024-01-02_03-04-05.mp4'', ''audio/mp4'') \<and>
   recordedChunksRef recording_done \<noteq> [] \<and> mediaRecorderRef recording_done = Some 0 \<and>
   0 < length (recorders recording_done) \<and>
   mr_mimeType (recorders recording_done ! 0) = ''audio/MP4'' \<and>
   recordedAudio (onstop ''audio/webm'' ''blob:1'' recording_done) =
     Some (''blob:1'', ''audio/mp4'') \<and>
   recordedAudioUrl recorded_root = Some ''blob:1'' \<and>
   handleSaveRecording_root jan2 recorded_root =
     Some ''metronome-recording_2024-01-02_03-04-05.webm''"
proof -
  have ra: "recordedAudio recorded_mp4 = Some (''blob:1'', ''audio/mp4'')"
    by (simp add: recorded_mp4_def recorder_initial_def)
  have yr: "utcFullYear jan2 \<le> 9999" by (simp add: jan2_def)
  have rd: "recordedChunksRef recording_done \<noteq> [] \<and>
      mediaRecorderRef recording_done = Some 0 \<and> 0 < length (recorders recording_done)"
    and ty: "mr_mimeType (recorders recording_done ! 0) = ''audio/MP4''"
    by (simp_all add: recording_done_def recorder_initial_def)
  have bt: "blob_type ''audio/MP4'' = ''audio/mp4''"
    by code_simp
  have ru: "recordedAudioUrl recorded_root = Some ''blob:1''"
    by (simp add: recorded_root_def recorder_root_requested_def)
  have ru': "recordedAudioUrl recorded_root = Some ''blob:1'' \<and> ''blob:1'' \<noteq> []"
    using ru by simp
  note inst = saved_name_format [OF ra yr]
  from inst have a: "handleSaveRecording jan2 recorded_mp4 =
     Some (''metronome-recording_2024-01-02_03-04-05.mp4'', ''audio/mp4'')"
    by (simp add: jan2_def pad2_def pad4_def digit_def)
  from inst have "\<forall>r supportedType url' s0.
            recordedChunksRef s0 \<noteq> [] \<and> mediaRecorderRef s0 = Some r \<and>
            r < length (recorders s0) \<longrightarrow>
            recordedAudio (onstop supportedType url' s0) =
              Some (url', blob_type (if mr_mimeType (recorders s0 ! r) \<noteq> []
                                     then mr_mimeType (recorders s0 ! r)
                                     else supportedType))"
    by (elim conjE) assumption
  from this [rule_format, OF rd, of "''audio/webm''" "''blob:1''"] ty bt
  have b: "recordedAudio (onstop ''audio/webm'' ''blob:1'' recording_done) =
     Some (''blob:1'', ''audio/mp4'')"
    by simp
  from inst have "\<forall>url0 r0.
            recordedAudioUrl r0 = Some url0 \<and> url0 \<noteq> [] \<longrightarrow>
            handleSaveRecording_root jan2 r0 =
              Some (''metronome-recording_'' @
                    pad4 (utcFullYear jan2) @ ''-'' @ pad2 (utcMonth jan2) @ ''-'' @
                    pad2 (utcDate jan2) @ ''_'' @
                    pad2 (utcHours jan2) @ ''-'' @ pad2 (utcMinutes jan2) @ ''-'' @
                    pad2 (utcSeconds jan2) @ ''.webm'')"
    by (elim conjE) assumption
  from this [rule_format, OF ru']
  have c: "handleSaveRecording_root jan2 recorded_root =
     Some ''metronome-recording_2024-01-02_03-04-05.webm''"
    by (simp add: jan2_def pad2_def pad4_def digit_def)
  from ra yr rd ty a b c ru show ?thesis by simp
qed

end
